theory Spec2Isabelle
  imports Main "HOL-Library.Multiset"
begin

section \<open>Decision queue: data model\<close>

text \<open>
  The decision queue of \<^verbatim>\<open>decisionQueueService\<close> keeps two items in the browser's
  \<^verbatim>\<open>localStorage\<close>: the queue state under \<^verbatim>\<open>crm_decision_queue\<close> and the array of
  processed dedupe keys under \<^verbatim>\<open>crm_processed_decisions\<close>. Timestamps are ISO-8601
  strings in the source (written by \<^verbatim>\<open>toISOString\<close>); they are represented here by the
  epoch milliseconds that \<^verbatim>\<open>Date.parse\<close> / \<^verbatim>\<open>new Date\<close> read from them, an optional
  field being \<open>None\<close> when it is absent (or the empty string, which the source's
  truthiness tests treat the same way).
\<close>

datatype DecisionPriority = critical | high | medium | low

datatype DecisionStatus = pending | approved | rejected | snoozed

datatype DecisionCategory = follow_up | deadline | opportunity | risk | routine

datatype jsvalue = JUndefined | JString string | JNumber int | JBool bool

type_synonym ActionPayload = "string \<rightharpoonup> jsvalue"

record SuggestedAction =
  action_type :: string
  payload :: ActionPayload

record Decision =
  decision_id :: string
  decision_type :: string
  category :: DecisionCategory
  priority :: DecisionPriority
  status :: DecisionStatus
  dealId :: "string option"
  contactId :: "string option"
  activityId :: "string option"
  createdAt :: int
  expiresAt :: "int option"
  snoozeUntil :: "int option"
  decidedAt :: "int option"
  suggestedAction :: SuggestedAction

typedecl AnalyzerResult

record DecisionQueueState =
  decisions :: "Decision list"
  analyzerResults :: "AnalyzerResult list"
  lastAnalyzedAt :: "int option"

record Storage =
  queue_item :: "DecisionQueueState option"
  processed_item :: "string list option"

text \<open>
  Modelled from the spec: \<^verbatim>\<open>PRIORITY_ORDER\<close> is imported from the types module, which
  is not among the sources; the spec orders the priorities critical > high > medium > low,
  and the comparator of \<^verbatim>\<open>getPendingDecisions\<close> sorts ascending in this table.
\<close>

fun PRIORITY_ORDER :: "DecisionPriority \<Rightarrow> int" where
  "PRIORITY_ORDER critical = 0"
| "PRIORITY_ORDER high = 1"
| "PRIORITY_ORDER medium = 2"
| "PRIORITY_ORDER low = 3"

section \<open>Storage\<close>

text \<open>
  \<^verbatim>\<open>loadState\<close> returns the parsed item, or the empty state when the item is absent.
  \<^verbatim>\<open>saveState\<close> replaces the item (a write to \<^verbatim>\<open>localStorage\<close> is taken to succeed).
\<close>

definition emptyState :: DecisionQueueState where
  "emptyState = \<lparr>decisions = [], analyzerResults = [], lastAnalyzedAt = None\<rparr>"

definition loadState :: "Storage \<Rightarrow> DecisionQueueState" where
  "loadState st = (case queue_item st of Some s \<Rightarrow> s | None \<Rightarrow> emptyState)"

definition saveState :: "DecisionQueueState \<Rightarrow> Storage \<Rightarrow> Storage" where
  "saveState s st = st\<lparr>queue_item := Some s\<rparr>"

text \<open>
  A JavaScript \<^verbatim>\<open>Set\<close> of strings iterates in insertion order and holds each key once:
  a duplicate-free list, \<^verbatim>\<open>add\<close> appending a key that is not yet a member.
  \<^verbatim>\<open>new Set(arr)\<close> adds the elements of the array from left to right.
\<close>

definition set_add :: "'a list \<Rightarrow> 'a \<Rightarrow> 'a list" where
  "set_add s k = (if k \<in> set s then s else s @ [k])"

definition new_Set :: "'a list \<Rightarrow> 'a list" where
  "new_Set arr = foldl set_add [] arr"

text \<open>\<^verbatim>\<open>arr.slice(-n)\<close>: the last \<open>n\<close> elements, the whole array when it is shorter.\<close>

definition slice_last :: "nat \<Rightarrow> 'a list \<Rightarrow> 'a list" where
  "slice_last n xs = drop (length xs - n) xs"

definition getProcessedDecisions :: "Storage \<Rightarrow> string list" where
  "getProcessedDecisions st =
     (case processed_item st of Some arr \<Rightarrow> new_Set arr | None \<Rightarrow> [])"

definition addProcessedDecision :: "string \<Rightarrow> Storage \<Rightarrow> Storage" where
  "addProcessedDecision key st =
     (let processed = set_add (getProcessedDecisions st) key;
          arr = slice_last 500 processed
      in st\<lparr>processed_item := Some arr\<rparr>)"

section \<open>Decision queue: operations\<close>

text \<open>
  JavaScript truthiness of an optional string (\<^verbatim>\<open>undefined\<close> and the empty string are
  falsy), the operator \<^verbatim>\<open>a || b\<close>, and the text a template literal prints for an
  optional string.
\<close>

definition truthy :: "string option \<Rightarrow> bool" where
  "truthy v = (case v of None \<Rightarrow> False | Some s \<Rightarrow> s \<noteq> [])"

definition js_or :: "string option \<Rightarrow> string option \<Rightarrow> string option" where
  "js_or a b = (if truthy a then a else b)"

definition js_string :: "string option \<Rightarrow> string" where
  "js_string v = (case v of None \<Rightarrow> ''undefined'' | Some s \<Rightarrow> s)"

definition dedupeKey :: "Decision \<Rightarrow> string" where
  "dedupeKey decision =
     decision_type decision @ '':'' @
     js_string (js_or (js_or (dealId decision) (contactId decision)) (activityId decision))"

definition similarPending :: "Decision \<Rightarrow> Decision \<Rightarrow> bool" where
  "similarPending decision d \<longleftrightarrow>
     status d = pending \<and>
     decision_type d = decision_type decision \<and>
     dealId d = dealId decision \<and>
     contactId d = contactId decision"

definition addDecision :: "Decision \<Rightarrow> Storage \<Rightarrow> Storage" where
  "addDecision decision st =
     (let state = loadState st;
          processed = getProcessedDecisions st
      in if dedupeKey decision \<in> set processed then st
         else (case find (similarPending decision) (decisions state) of
                 Some existingSimilar \<Rightarrow> st
               | None \<Rightarrow> saveState (state\<lparr>decisions := decisions state @ [decision]\<rparr>) st))"

fun addDecisions_loop ::
  "string list \<Rightarrow> Decision list \<Rightarrow> DecisionQueueState \<times> nat \<Rightarrow> DecisionQueueState \<times> nat" where
  "addDecisions_loop processed [] (state, added) = (state, added)"
| "addDecisions_loop processed (decision # rest) (state, added) =
     (if dedupeKey decision \<in> set processed then addDecisions_loop processed rest (state, added)
      else (case find (similarPending decision) (decisions state) of
              Some existingSimilar \<Rightarrow> addDecisions_loop processed rest (state, added)
            | None \<Rightarrow>
                addDecisions_loop processed rest
                  (state\<lparr>decisions := decisions state @ [decision]\<rparr>, added + 1)))"

definition addDecisions :: "Decision list \<Rightarrow> Storage \<Rightarrow> nat \<times> Storage" where
  "addDecisions ds st =
     (case addDecisions_loop (getProcessedDecisions st) ds (loadState st, 0) of
        (state, added) \<Rightarrow> (added, if added > 0 then saveState state st else st))"

text \<open>The filter and the comparator of \<^verbatim>\<open>getPendingDecisions\<close>.\<close>

definition isPendingNow :: "int \<Rightarrow> Decision \<Rightarrow> bool" where
  "isPendingNow nowTs d =
     (if status d \<noteq> pending then False
      else if (case expiresAt d of Some e \<Rightarrow> e < nowTs | None \<Rightarrow> False) then False
      else if (case snoozeUntil d of Some u \<Rightarrow> u > nowTs | None \<Rightarrow> False) then False
      else True)"

definition compareDecisions :: "Decision \<Rightarrow> Decision \<Rightarrow> int" where
  "compareDecisions a b =
     (let priorityDiff = PRIORITY_ORDER (priority a) - PRIORITY_ORDER (priority b)
      in if priorityDiff \<noteq> 0 then priorityDiff else createdAt b - createdAt a)"

text \<open>
  \<^verbatim>\<open>Array.prototype.sort\<close> with a comparator is a stable sort (ECMAScript 2019): for a
  consistent comparator its result is the one of the stable insertion sort below, an
  element going before the first one it does not compare greater than.
\<close>

fun insert_by :: "('a \<Rightarrow> 'a \<Rightarrow> int) \<Rightarrow> 'a \<Rightarrow> 'a list \<Rightarrow> 'a list" where
  "insert_by cmp x [] = [x]"
| "insert_by cmp x (y # ys) = (if cmp x y \<le> 0 then x # y # ys else y # insert_by cmp x ys)"

definition js_sort :: "('a \<Rightarrow> 'a \<Rightarrow> int) \<Rightarrow> 'a list \<Rightarrow> 'a list" where
  "js_sort cmp xs = foldr (insert_by cmp) xs []"

definition getPendingDecisions :: "int \<Rightarrow> Storage \<Rightarrow> Decision list" where
  "getPendingDecisions nowTs st =
     js_sort compareDecisions (filter (isPendingNow nowTs) (decisions (loadState st)))"

definition getDecisionById :: "string \<Rightarrow> Storage \<Rightarrow> Decision option" where
  "getDecisionById i st = find (\<lambda>d. decision_id d = i) (decisions (loadState st))"

text \<open>
  \<^verbatim>\<open>find\<close> returns a reference into the loaded array, and \<^verbatim>\<open>updateDecisionStatus\<close>
  assigns to its fields: the first element with the id is the one that changes.
\<close>

fun update_first :: "('a \<Rightarrow> bool) \<Rightarrow> ('a \<Rightarrow> 'a) \<Rightarrow> 'a list \<Rightarrow> 'a list" where
  "update_first P f [] = []"
| "update_first P f (x # xs) = (if P x then f x # xs else x # update_first P f xs)"

definition updateDecisionStatus :: "string \<Rightarrow> DecisionStatus \<Rightarrow> int \<Rightarrow> Storage \<Rightarrow> Storage" where
  "updateDecisionStatus i newStatus now st =
     (let state = loadState st
      in case find (\<lambda>d. decision_id d = i) (decisions state) of
           None \<Rightarrow> st
         | Some decision \<Rightarrow>
             (let state' = state\<lparr>decisions :=
                    update_first (\<lambda>d. decision_id d = i)
                      (\<lambda>d. d\<lparr>status := newStatus, decidedAt := Some now\<rparr>) (decisions state)\<rparr>;
                  st' = (if newStatus = approved \<or> newStatus = rejected
                         then addProcessedDecision (dedupeKey decision) st else st)
              in saveState state' st'))"

record ActionResult =
  success :: bool
  error :: "string option"
  result :: "(string \<times> ActionPayload \<times> bool) option"

text \<open>
  The placeholder executor of the source: it reports success and echoes the action
  (\<^verbatim>\<open>needsExternalExecution: true\<close>).
\<close>

definition executeAction :: "string \<Rightarrow> ActionPayload \<Rightarrow> ActionResult" where
  "executeAction actionType pl =
     \<lparr>success = True, error = None, result = Some (actionType, pl, True)\<rparr>"

text \<open>
  The two messages of \<^verbatim>\<open>approveDecision\<close>, as UTF-8 bytes
  (\<^verbatim>\<open>a-tilde\<close> is \<open>0xC3 0xA3\<close>, \<^verbatim>\<open>a-acute\<close> is \<open>0xC3 0xA1\<close>).
\<close>

definition msg_not_found :: string where
  "msg_not_found = ''Decis'' @ [CHR 0xC3, CHR 0xA3] @ ''o n'' @ [CHR 0xC3, CHR 0xA3] @ ''o encontrada''"

definition msg_already_processed :: string where
  "msg_already_processed = ''Decis'' @ [CHR 0xC3, CHR 0xA3] @ ''o j'' @ [CHR 0xC3, CHR 0xA1] @ '' foi processada''"

text \<open>
  \<^verbatim>\<open>approveDecision\<close> calls \<^verbatim>\<open>this.executeAction\<close>; the executor is a parameter here and
  the service's own method is the instance \<open>approveDecision\<close>. The result is the value
  returned, the list of executor calls made, and the storage afterwards.
\<close>

definition approveDecisionWith ::
  "(string \<Rightarrow> ActionPayload \<Rightarrow> ActionResult) \<Rightarrow> string \<Rightarrow> ActionPayload option \<Rightarrow> int \<Rightarrow> Storage
     \<Rightarrow> ActionResult \<times> (string \<times> ActionPayload) list \<times> Storage" where
  "approveDecisionWith exec i modifiedPayload now st =
     (case getDecisionById i st of
        None \<Rightarrow> (\<lparr>success = False, error = Some msg_not_found, result = None\<rparr>, [], st)
      | Some decision \<Rightarrow>
          if status decision \<noteq> pending
          then (\<lparr>success = False, error = Some msg_already_processed, result = None\<rparr>, [], st)
          else
            (let finalPayload =
                   (case modifiedPayload of
                      Some m \<Rightarrow> payload (suggestedAction decision) ++ m
                    | None \<Rightarrow> payload (suggestedAction decision));
                 res = exec (action_type (suggestedAction decision)) finalPayload
             in (res, [(action_type (suggestedAction decision), finalPayload)],
                 if success res then updateDecisionStatus i approved now st else st)))"

definition approveDecision ::
  "string \<Rightarrow> ActionPayload option \<Rightarrow> int \<Rightarrow> Storage
     \<Rightarrow> ActionResult \<times> (string \<times> ActionPayload) list \<times> Storage" where
  "approveDecision = approveDecisionWith executeAction"

text \<open>Maintenance sweeps.\<close>

definition keepOnClearExpired :: "int \<Rightarrow> Decision \<Rightarrow> bool" where
  "keepOnClearExpired now d =
     (if status d \<noteq> pending then True
      else if (case expiresAt d of Some e \<Rightarrow> e < now | None \<Rightarrow> False) then False
      else True)"

definition clearExpired :: "int \<Rightarrow> Storage \<Rightarrow> int \<times> Storage" where
  "clearExpired now st =
     (let state = loadState st;
          before = length (decisions state);
          state' = state\<lparr>decisions := filter (keepOnClearExpired now) (decisions state)\<rparr>
      in (int before - int (length (decisions state')), saveState state' st))"

text \<open>
  \<^verbatim>\<open>clearCompleted\<close> computes its cutoff in local calendar time:
  \<^verbatim>\<open>cutoff.setDate(cutoff.getDate() - olderThanDays)\<close>. By ECMAScript's definition of
  \<^verbatim>\<open>Date.prototype.setDate\<close>, the time value \<open>t\<close> is taken to local time, the day of the
  month is replaced (\<^verbatim>\<open>MakeDay\<close> of the year and month of the local time with the date
  \<^verbatim>\<open>DateFromTime - olderThanDays\<close> is the day number \<open>Day - olderThanDays\<close>, months and
  years rolling over), the time within the day is kept, and the result is taken back to
  UTC and clipped to the range of a \<^verbatim>\<open>Date\<close>. The local time zone adjustment is
  implementation-defined: it is a parameter, the offset in milliseconds at a UTC time
  value (\<^verbatim>\<open>LocalTZA(t, true)\<close>) and at a local time value (\<^verbatim>\<open>LocalTZA(t, false)\<close>).
  A time value outside the range is \<^verbatim>\<open>NaN\<close>, here \<open>None\<close>; a comparison with it is
  false. The parameter \<^verbatim>\<open>olderThanDays\<close> defaults to 7.
\<close>

record TimeZone =
  LocalTZA_utc :: "int \<Rightarrow> int"
  LocalTZA_local :: "int \<Rightarrow> int"

definition msPerDay :: int where
  "msPerDay = 86400000"

definition maxTime :: int where
  "maxTime = 8640000000000000"

definition Day :: "int \<Rightarrow> int" where
  "Day t = t div msPerDay"

definition TimeWithinDay :: "int \<Rightarrow> int" where
  "TimeWithinDay t = t mod msPerDay"

definition LocalTime :: "TimeZone \<Rightarrow> int \<Rightarrow> int" where
  "LocalTime tz t = t + LocalTZA_utc tz t"

definition UTC :: "TimeZone \<Rightarrow> int \<Rightarrow> int" where
  "UTC tz t = t - LocalTZA_local tz t"

definition TimeClip :: "int \<Rightarrow> int option" where
  "TimeClip t = (if \<bar>t\<bar> > maxTime then None else Some t)"

definition setDateBack :: "TimeZone \<Rightarrow> int \<Rightarrow> int \<Rightarrow> int option" where
  "setDateBack tz t olderThanDays =
     (let localTime = LocalTime tz t;
          newDate = (Day localTime - olderThanDays) * msPerDay + TimeWithinDay localTime
      in TimeClip (UTC tz newDate))"

definition keepOnClearCompleted :: "int option \<Rightarrow> Decision \<Rightarrow> bool" where
  "keepOnClearCompleted cutoff d =
     (if status d = pending then True
      else if (case decidedAt d of
                 Some t \<Rightarrow> (case cutoff of Some c \<Rightarrow> t < c | None \<Rightarrow> False)
               | None \<Rightarrow> False) then False
      else True)"

definition clearCompleted :: "TimeZone \<Rightarrow> int option \<Rightarrow> int \<Rightarrow> Storage \<Rightarrow> int \<times> Storage" where
  "clearCompleted tz olderThanDaysArg now st =
     (let olderThanDays = (case olderThanDaysArg of Some n \<Rightarrow> n | None \<Rightarrow> 7);
          state = loadState st;
          cutoff = setDateBack tz now olderThanDays;
          before = length (decisions state);
          state' = state\<lparr>decisions := filter (keepOnClearCompleted cutoff) (decisions state)\<rparr>
      in (int before - int (length (decisions state')), saveState state' st))"

section \<open>Query cache and board mutations\<close>

text \<open>
  The query client holds the cached boards list (\<^verbatim>\<open>queryKeys.boards.lists()\<close>), the
  cached deals list of each board (\<^verbatim>\<open>queryKeys.deals.list({ boardId })\<close>), both
  \<open>None\<close> while nothing is cached, and receives \<^verbatim>\<open>invalidateQueries\<close> calls, kept here
  as a log of the key prefix and the refetch type of each call (the library's default
  refetch type is \<^verbatim>\<open>'active'\<close>).
\<close>

typedecl BoardStage

record Board =
  board_id :: string
  board_name :: string
  stages :: "BoardStage list"
  isDefault :: bool
  board_createdAt :: int

record BoardInput =
  in_name :: string
  in_stages :: "BoardStage list option"
  in_isDefault :: "bool option"

record BoardUpdates =
  up_id :: "string option"
  up_name :: "string option"
  up_stages :: "BoardStage list option"
  up_isDefault :: "bool option"
  up_createdAt :: "int option"

record DealView =
  deal_id :: string
  deal_title :: string
  contactName :: string
  contactEmail :: string
  stageLabel :: string
  clientCompanyName :: string
  companyName :: string

datatype query_key =
  deals_all | dashboard_stats | contacts_all | activities_all | boards_all | companies_all

datatype refetchType = refetch_active | refetch_all | refetch_none

record QueryClient =
  boards_lists :: "Board list option"
  deals_list :: "string \<Rightarrow> DealView list option"
  invalidations :: "(query_key \<times> refetchType) list"

definition invalidateQueries :: "query_key \<Rightarrow> refetchType \<Rightarrow> QueryClient \<Rightarrow> QueryClient" where
  "invalidateQueries k rt qc = qc\<lparr>invalidations := invalidations qc @ [(k, rt)]\<rparr>"

text \<open>An updater \<^verbatim>\<open>(old = []) => ...\<close> sees the empty list when nothing is cached.\<close>

definition old_or_empty :: "'a list option \<Rightarrow> 'a list" where
  "old_or_empty c = (case c of None \<Rightarrow> [] | Some old \<Rightarrow> old)"

subsection \<open>useCreateBoard\<close>

record CreateBoardVars =
  board :: BoardInput
  order :: "int option"
  clientTempId :: "string option"

record CreateBoardContext =
  previousBoards :: "Board list option"
  tempId :: string

text \<open>
  \<^verbatim>\<open>onMutate\<close>: the generated id is \<^verbatim>\<open>temp-<time>-<random>\<close>; \<open>suffix\<close> stands for the
  part after \<^verbatim>\<open>temp-\<close>, \<open>now\<close> for the creation time.
\<close>

definition createBoard_onMutate ::
  "string \<Rightarrow> int \<Rightarrow> CreateBoardVars \<Rightarrow> QueryClient \<Rightarrow> CreateBoardContext \<times> QueryClient" where
  "createBoard_onMutate suffix now vars qc =
     (let previous = boards_lists qc;
          tid = (case clientTempId vars of
                   Some c \<Rightarrow> if c \<noteq> [] then c else ''temp-'' @ suffix
                 | None \<Rightarrow> ''temp-'' @ suffix);
          tempBoard = \<lparr>board_id = tid,
                       board_name = in_name (board vars),
                       stages = (case in_stages (board vars) of Some s \<Rightarrow> s | None \<Rightarrow> []),
                       isDefault = (case in_isDefault (board vars) of Some b \<Rightarrow> b | None \<Rightarrow> False),
                       board_createdAt = now\<rparr>
      in (\<lparr>previousBoards = previous, tempId = tid\<rparr>,
          qc\<lparr>boards_lists := Some (tempBoard # old_or_empty (boards_lists qc))\<rparr>))"

definition createBoard_onError :: "CreateBoardContext option \<Rightarrow> QueryClient \<Rightarrow> QueryClient" where
  "createBoard_onError context qc =
     (case context of
        None \<Rightarrow> qc
      | Some c \<Rightarrow> (case previousBoards c of
                     None \<Rightarrow> qc
                   | Some previous \<Rightarrow> qc\<lparr>boards_lists := Some previous\<rparr>))"

definition createBoard_onSuccess ::
  "Board \<Rightarrow> CreateBoardContext option \<Rightarrow> QueryClient \<Rightarrow> QueryClient" where
  "createBoard_onSuccess data context qc =
     (case context of
        None \<Rightarrow> qc
      | Some c \<Rightarrow>
          if tempId c = [] then qc
          else
            (let old = old_or_empty (boards_lists qc);
                 withoutTemp = filter (\<lambda>b. board_id b \<noteq> tempId c) old;
                 already = list_ex (\<lambda>b. board_id b = board_id data) withoutTemp
             in qc\<lparr>boards_lists := Some (if already then withoutTemp else data # withoutTemp)\<rparr>))"

definition createBoard_onSettled :: "QueryClient \<Rightarrow> QueryClient" where
  "createBoard_onSettled qc = invalidateQueries boards_all refetch_active qc"

subsection \<open>useUpdateBoard\<close>

definition apply_updates :: "Board \<Rightarrow> BoardUpdates \<Rightarrow> Board" where
  "apply_updates b u =
     \<lparr>board_id = (case up_id u of Some v \<Rightarrow> v | None \<Rightarrow> board_id b),
      board_name = (case up_name u of Some v \<Rightarrow> v | None \<Rightarrow> board_name b),
      stages = (case up_stages u of Some v \<Rightarrow> v | None \<Rightarrow> stages b),
      isDefault = (case up_isDefault u of Some v \<Rightarrow> v | None \<Rightarrow> isDefault b),
      board_createdAt = (case up_createdAt u of Some v \<Rightarrow> v | None \<Rightarrow> board_createdAt b)\<rparr>"

definition updateBoard_onMutate ::
  "string \<times> BoardUpdates \<Rightarrow> QueryClient \<Rightarrow> Board list option \<times> QueryClient" where
  "updateBoard_onMutate vars qc =
     (case vars of (i, updates) \<Rightarrow>
        (boards_lists qc,
         qc\<lparr>boards_lists :=
              Some (map (\<lambda>b. if board_id b = i then apply_updates b updates else b)
                      (old_or_empty (boards_lists qc)))\<rparr>))"

definition updateBoard_onError :: "Board list option option \<Rightarrow> QueryClient \<Rightarrow> QueryClient" where
  "updateBoard_onError context qc =
     (case context of
        Some (Some previous) \<Rightarrow> qc\<lparr>boards_lists := Some previous\<rparr>
      | _ \<Rightarrow> qc)"

definition updateBoard_onSettled :: "QueryClient \<Rightarrow> QueryClient" where
  "updateBoard_onSettled qc = invalidateQueries boards_all refetch_active qc"

subsection \<open>useDeleteBoard\<close>

definition deleteBoard_onMutate :: "string \<Rightarrow> QueryClient \<Rightarrow> Board list option \<times> QueryClient" where
  "deleteBoard_onMutate i qc =
     (boards_lists qc,
      qc\<lparr>boards_lists := Some (filter (\<lambda>b. board_id b \<noteq> i) (old_or_empty (boards_lists qc)))\<rparr>)"

definition deleteBoard_onError :: "Board list option option \<Rightarrow> QueryClient \<Rightarrow> QueryClient" where
  "deleteBoard_onError context qc =
     (case context of
        Some (Some previous) \<Rightarrow> qc\<lparr>boards_lists := Some previous\<rparr>
      | _ \<Rightarrow> qc)"

definition deleteBoard_onSettled :: "QueryClient \<Rightarrow> QueryClient" where
  "deleteBoard_onSettled qc =
     invalidateQueries deals_all refetch_active (invalidateQueries boards_all refetch_active qc)"

subsection \<open>The mutation lifecycle\<close>

text \<open>
  Modelled from the spec: the handlers are driven by \<^verbatim>\<open>useMutation\<close> of the query
  library, which is not part of the sources. Following section 4.2 of the spec, a run
  snapshots and edits the cache (\<^verbatim>\<open>onMutate\<close>), issues the remote write, and when the
  write settles calls \<^verbatim>\<open>onSuccess\<close> with the returned record or \<^verbatim>\<open>onError\<close>, each with
  the context \<^verbatim>\<open>onMutate\<close> returned, and then always \<^verbatim>\<open>onSettled\<close>. While the write is
  in flight other events may change the cache: \<open>inflight\<close> is that change.
\<close>

datatype 'r outcome = Resolved 'r | Rejected

definition runMutation ::
  "('v \<Rightarrow> QueryClient \<Rightarrow> 'c \<times> QueryClient) \<Rightarrow>
   ('r \<Rightarrow> 'c option \<Rightarrow> QueryClient \<Rightarrow> QueryClient) \<Rightarrow>
   ('c option \<Rightarrow> QueryClient \<Rightarrow> QueryClient) \<Rightarrow>
   (QueryClient \<Rightarrow> QueryClient) \<Rightarrow>
   'v \<Rightarrow> (QueryClient \<Rightarrow> QueryClient) \<Rightarrow> 'r outcome \<Rightarrow> QueryClient \<Rightarrow> QueryClient" where
  "runMutation onMutate onSuccess onError onSettled vars inflight out qc =
     (case onMutate vars qc of
        (context, qc1) \<Rightarrow>
          (let qc2 = inflight qc1;
               qc3 = (case out of
                        Resolved data \<Rightarrow> onSuccess data (Some context) qc2
                      | Rejected \<Rightarrow> onError (Some context) qc2)
           in onSettled qc3))"

definition useCreateBoard ::
  "string \<Rightarrow> int \<Rightarrow> CreateBoardVars \<Rightarrow> (QueryClient \<Rightarrow> QueryClient) \<Rightarrow> Board outcome
     \<Rightarrow> QueryClient \<Rightarrow> QueryClient" where
  "useCreateBoard suffix now =
     runMutation (createBoard_onMutate suffix now) createBoard_onSuccess createBoard_onError
       createBoard_onSettled"

definition useUpdateBoard ::
  "string \<times> BoardUpdates \<Rightarrow> (QueryClient \<Rightarrow> QueryClient) \<Rightarrow> (string \<times> BoardUpdates) outcome
     \<Rightarrow> QueryClient \<Rightarrow> QueryClient" where
  "useUpdateBoard =
     runMutation updateBoard_onMutate (\<lambda>data context qc. qc) updateBoard_onError
       updateBoard_onSettled"

definition useDeleteBoard ::
  "string \<Rightarrow> (QueryClient \<Rightarrow> QueryClient) \<Rightarrow> string outcome \<Rightarrow> QueryClient \<Rightarrow> QueryClient" where
  "useDeleteBoard =
     runMutation deleteBoard_onMutate (\<lambda>data context qc. qc) deleteBoard_onError
       deleteBoard_onSettled"

subsection \<open>addDeal: reconciling the optimistic deal\<close>

text \<open>
  After \<^verbatim>\<open>addDealState\<close> returns, \<^verbatim>\<open>addDeal\<close> replaces the optimistic deal in the cached
  list of the deal's board by the created one, or removes it when nothing was created; it
  does nothing when the deal has no board id. The created deal is shown with the labels
  computed for the optimistic one.
\<close>

record OptimisticLabels =
  optimisticContactName :: string
  optimisticContactEmail :: string
  optimisticStageLabel :: string
  optimisticCompanyName :: string

definition setDealsList ::
  "string \<Rightarrow> (DealView list \<Rightarrow> DealView list) \<Rightarrow> QueryClient \<Rightarrow> QueryClient" where
  "setDealsList boardId updater qc =
     qc\<lparr>deals_list := (deals_list qc)(boardId := Some (updater (old_or_empty (deals_list qc boardId))))\<rparr>"

definition addDeal_reconcile ::
  "string \<Rightarrow> string \<Rightarrow> OptimisticLabels \<Rightarrow> DealView option \<Rightarrow> QueryClient \<Rightarrow> QueryClient" where
  "addDeal_reconcile optimisticBoardId optimisticTempId labels createdDeal qc =
     (if optimisticBoardId = [] then qc
      else
        (case createdDeal of
           Some created \<Rightarrow>
             (let createdDealView = created
                    \<lparr>contactName := optimisticContactName labels,
                     contactEmail := optimisticContactEmail labels,
                     stageLabel := optimisticStageLabel labels,
                     clientCompanyName := optimisticCompanyName labels,
                     companyName := optimisticCompanyName labels\<rparr>
              in setDealsList optimisticBoardId
                   (\<lambda>old.
                      let withoutTemp = filter (\<lambda>d. deal_id d \<noteq> optimisticTempId) old;
                          already = list_ex (\<lambda>d. deal_id d = deal_id created) withoutTemp
                      in if already then withoutTemp else createdDealView # withoutTemp)
                   qc)
         | None \<Rightarrow>
             setDealsList optimisticBoardId
               (\<lambda>old. filter (\<lambda>d. deal_id d \<noteq> optimisticTempId) old) qc))"

subsection \<open>The reconciled list\<close>

text \<open>
  The updaters of \<^verbatim>\<open>useCreateBoard.onSuccess\<close> and of \<^verbatim>\<open>addDeal\<close> compute the same
  list from the cached one: the records without the temp id, with the created record in
  front unless one of them has its id. The lemmas on the two functions go through it.
\<close>

definition reconciled :: "('a \<Rightarrow> string) \<Rightarrow> string \<Rightarrow> 'a \<Rightarrow> 'a list \<Rightarrow> 'a list" where
  "reconciled key tid new old =
     (if list_ex (\<lambda>x. key x = key new) (filter (\<lambda>x. key x \<noteq> tid) old)
      then filter (\<lambda>x. key x \<noteq> tid) old
      else new # filter (\<lambda>x. key x \<noteq> tid) old)"

section \<open>Realtime synchronisation\<close>

text \<open>
  The refs of \<^verbatim>\<open>useRealtimeSync\<close>: two insertion-ordered sets of pending query keys, the
  count of pending \<^verbatim>\<open>board_stages\<close> inserts, whether the microtask flush is queued, and
  whether the debounce timer is armed.
\<close>

datatype RealtimeTable = deals | contacts | activities | boards | board_stages | crm_companies

datatype eventType = INSERT | UPDATE | DELETE

fun getTableQueryKeys :: "RealtimeTable \<Rightarrow> query_key list" where
  "getTableQueryKeys deals = [deals_all, dashboard_stats]"
| "getTableQueryKeys contacts = [contacts_all]"
| "getTableQueryKeys activities = [activities_all]"
| "getTableQueryKeys boards = [boards_all]"
| "getTableQueryKeys board_stages = [boards_all]"
| "getTableQueryKeys crm_companies = [companies_all]"

record SyncState =
  pendingInvalidations :: "query_key list"
  pendingInvalidateOnly :: "query_key list"
  pendingBoardStagesInsertCount :: nat
  flushScheduled :: bool
  debounceTimer :: bool

text \<open>The handler of one change event; on an insert it queues the flush unless one is queued.\<close>

definition onPayload :: "RealtimeTable \<Rightarrow> eventType \<Rightarrow> SyncState \<Rightarrow> SyncState" where
  "onPayload table ev s =
     (let keys = getTableQueryKeys table;
          s1 = (if ev = INSERT \<and> table = board_stages
                then s\<lparr>pendingInvalidateOnly := foldl set_add (pendingInvalidateOnly s) keys,
                       pendingBoardStagesInsertCount := pendingBoardStagesInsertCount s + 1\<rparr>
                else s\<lparr>pendingInvalidations := foldl set_add (pendingInvalidations s) keys\<rparr>)
      in if ev = INSERT
         then (if \<not> flushScheduled s1 then s1\<lparr>flushScheduled := True\<rparr> else s1)
         else s1\<lparr>debounceTimer := True\<rparr>)"

text \<open>The queued microtask.\<close>

definition flush :: "SyncState \<Rightarrow> QueryClient \<Rightarrow> SyncState \<times> QueryClient" where
  "flush s qc =
     (let keysToFlush = pendingInvalidations s;
          keysInvalidateOnly = pendingInvalidateOnly s;
          boardStagesInsertCount = pendingBoardStagesInsertCount s;
          s' = s\<lparr>flushScheduled := False,
                 pendingInvalidations := [],
                 pendingInvalidateOnly := [],
                 pendingBoardStagesInsertCount := 0\<rparr>;
          qc1 = foldl (\<lambda>q k. invalidateQueries k refetch_all q) qc keysToFlush;
          qc2 = foldl (\<lambda>q k. invalidateQueries k
                          (if boardStagesInsertCount \<le> 1 then refetch_all else refetch_none) q)
                  qc1 keysInvalidateOnly
      in (s', qc2))"

text \<open>The debounce timer firing (updates and deletes).\<close>

definition debounceFire :: "SyncState \<Rightarrow> QueryClient \<Rightarrow> SyncState \<times> QueryClient" where
  "debounceFire s qc =
     (s\<lparr>pendingInvalidations := [], debounceTimer := False\<rparr>,
      foldl (\<lambda>q k. invalidateQueries k refetch_active q) qc (pendingInvalidations s))"

text \<open>
  Events delivered within one task are handled one after the other; the microtask, when
  one was queued, runs after the last of them and before any timer.
\<close>

definition deliverBatch ::
  "(RealtimeTable \<times> eventType) list \<Rightarrow> SyncState \<Rightarrow> QueryClient \<Rightarrow> SyncState \<times> QueryClient" where
  "deliverBatch events s qc =
     (let s1 = foldl (\<lambda>acc (table, ev). onPayload table ev acc) s events
      in if flushScheduled s1 then flush s1 qc else (s1, qc))"

definition idle :: "SyncState \<Rightarrow> bool" where
  "idle s \<longleftrightarrow>
     \<not> flushScheduled s \<and> pendingInvalidations s = [] \<and> pendingInvalidateOnly s = [] \<and>
     pendingBoardStagesInsertCount s = 0"

section \<open>Invariant of the processed keys\<close>

text \<open>
  The array under \<^verbatim>\<open>crm_processed_decisions\<close> is written by \<^verbatim>\<open>addProcessedDecision\<close>
  only, which cuts it to 500 entries: in every storage the service has produced it is
  absent or at most 500 long.
\<close>

definition processedBounded :: "Storage \<Rightarrow> bool" where
  "processedBounded st = (case processed_item st of None \<Rightarrow> True | Some arr \<Rightarrow> length arr \<le> 500)"

section \<open>The order of priorities in the spec's words\<close>

text \<open>
  The spec sorts the pending decisions critical > high > medium > low: \<open>outranks p q\<close>
  says that priority \<open>p\<close> comes strictly before priority \<open>q\<close> in that order. It is the
  order the sorting theorem is stated in, written without reference to the numbers of
  \<^verbatim>\<open>PRIORITY_ORDER\<close>.
\<close>

fun outranks :: "DecisionPriority \<Rightarrow> DecisionPriority \<Rightarrow> bool" where
  "outranks critical q = (q = high \<or> q = medium \<or> q = low)"
| "outranks high q = (q = medium \<or> q = low)"
| "outranks medium q = (q = low)"
| "outranks low q = False"

section \<open>Example values\<close>

text \<open>Concrete stores, decisions and caches on which the theorems below are instantiated.\<close>

definition ex_keys :: "string list" where
  "ex_keys = map (\<lambda>n. ''stagnant_deal:'' @ replicate (Suc n) CHR ''d'') [0..<500]"

definition ex_store500 :: Storage where
  "ex_store500 = \<lparr>queue_item = None, processed_item = Some ex_keys\<rparr>"

definition ex_decision :: Decision where
  "ex_decision =
     \<lparr>decision_id = ''dec-1'', decision_type = ''stagnant_deal'', category = risk,
      priority = high, status = pending, dealId = Some ''d'', contactId = None,
      activityId = None, createdAt = 1000, expiresAt = None, snoozeUntil = None,
      decidedAt = None,
      suggestedAction = \<lparr>action_type = ''create_task'', payload = Map.empty\<rparr>\<rparr>"

definition ex_expired :: Decision where
  "ex_expired = ex_decision\<lparr>decision_id := ''dec-2'', dealId := Some ''d2'', expiresAt := Some 4000\<rparr>"

definition ex_done_old :: Decision where
  "ex_done_old = ex_decision\<lparr>decision_id := ''dec-3'', dealId := Some ''d3'', status := approved,
     decidedAt := Some 1000\<rparr>"

definition ex_done_recent :: Decision where
  "ex_done_recent = ex_decision\<lparr>decision_id := ''dec-4'', dealId := Some ''d4'', status := rejected,
     decidedAt := Some 700000000\<rparr>"

definition ex_queue :: Storage where
  "ex_queue = \<lparr>queue_item = Some \<lparr>decisions = [ex_decision, ex_expired, ex_done_old, ex_done_recent],
                    analyzerResults = [], lastAnalyzedAt = None\<rparr>,
               processed_item = None\<rparr>"

definition ex_override :: ActionPayload where
  "ex_override = [''title'' \<mapsto> JString ''Call back'']"

definition ex_action_decision :: Decision where
  "ex_action_decision = ex_decision\<lparr>decision_id := ''dec-5'', dealId := Some ''d5'',
     suggestedAction := \<lparr>action_type = ''create_task'',
        payload = [''title'' \<mapsto> JString ''Follow up'', ''days'' \<mapsto> JNumber 3]\<rparr>\<rparr>"

definition ex_action_queue :: Storage where
  "ex_action_queue = \<lparr>queue_item = Some \<lparr>decisions = [ex_done_old, ex_action_decision],
                    analyzerResults = [], lastAnalyzedAt = None\<rparr>,
               processed_item = Some [''stagnant_deal:d3'']\<rparr>"

definition ex_empty :: Storage where
  "ex_empty = \<lparr>queue_item = None, processed_item = None\<rparr>"

definition ex_dup_a :: Decision where
  "ex_dup_a = ex_decision\<lparr>decision_id := ''dec-a'', dealId := Some ''deal-1'', contactId := Some ''c1''\<rparr>"

definition ex_dup_b :: Decision where
  "ex_dup_b = ex_decision\<lparr>decision_id := ''dec-b'', dealId := Some ''deal-1'', contactId := Some ''c2''\<rparr>"

definition ex_dup_c :: Decision where
  "ex_dup_c = ex_decision\<lparr>decision_id := ''dec-c'', dealId := Some ''deal-1'', contactId := Some ''c1''\<rparr>"

definition ex_critical_old :: Decision where
  "ex_critical_old = ex_decision\<lparr>decision_id := ''dec-6'', priority := critical, createdAt := 500\<rparr>"

definition ex_high_new :: Decision where
  "ex_high_new = ex_decision\<lparr>decision_id := ''dec-7'', createdAt := 2000\<rparr>"

definition ex_snoozed_pending :: Decision where
  "ex_snoozed_pending = ex_decision\<lparr>decision_id := ''dec-8'', priority := low, snoozeUntil := Some 9000\<rparr>"

definition ex_low :: Decision where
  "ex_low = ex_decision\<lparr>decision_id := ''dec-9'', priority := low, expiresAt := Some 6000,
     snoozeUntil := Some 3000\<rparr>"

definition ex_pending_queue :: Storage where
  "ex_pending_queue =
     \<lparr>queue_item = Some \<lparr>decisions = [ex_low, ex_decision, ex_expired, ex_done_old, ex_high_new,
                                        ex_snoozed_pending, ex_critical_old],
                    analyzerResults = [], lastAnalyzedAt = None\<rparr>,
      processed_item = None\<rparr>"

definition ex_server_board :: Board where
  "ex_server_board = \<lparr>board_id = ''b-1'', board_name = ''Sales'', stages = [], isDefault = True,
     board_createdAt = 100\<rparr>"

definition ex_created_board :: Board where
  "ex_created_board = \<lparr>board_id = ''b-2'', board_name = ''Partners'', stages = [], isDefault = False,
     board_createdAt = 7000\<rparr>"

definition ex_vars :: CreateBoardVars where
  "ex_vars = \<lparr>board = \<lparr>in_name = ''Partners'', in_stages = None, in_isDefault = None\<rparr>,
     order = None, clientTempId = None\<rparr>"

definition ex_updates :: BoardUpdates where
  "ex_updates = \<lparr>up_id = None, up_name = Some ''Renamed'', up_stages = None,
     up_isDefault = None, up_createdAt = None\<rparr>"

definition ex_cache :: QueryClient where
  "ex_cache = \<lparr>boards_lists = Some [ex_server_board], deals_list = (\<lambda>b. None), invalidations = []\<rparr>"

definition ex_temp_board :: Board where
  "ex_temp_board = \<lparr>board_id = ''temp-1-abc'', board_name = ''Partners'', stages = [],
     isDefault = False, board_createdAt = 7000\<rparr>"

definition ex_context :: CreateBoardContext where
  "ex_context = \<lparr>previousBoards = Some [ex_server_board], tempId = ''temp-1-abc''\<rparr>"

definition ex_cache_twice :: QueryClient where
  "ex_cache_twice = \<lparr>boards_lists = Some [ex_temp_board, ex_created_board, ex_created_board],
     deals_list = (\<lambda>b. None), invalidations = []\<rparr>"

definition ex_cache_delivered :: QueryClient where
  "ex_cache_delivered = \<lparr>boards_lists = Some [ex_temp_board, ex_created_board, ex_server_board],
     deals_list = (\<lambda>b. None), invalidations = []\<rparr>"

definition ex_labels :: OptimisticLabels where
  "ex_labels = \<lparr>optimisticContactName = ''Ana'', optimisticContactEmail = ''ana@example.com'',
     optimisticStageLabel = ''New'', optimisticCompanyName = ''Acme''\<rparr>"

definition ex_created_deal :: DealView where
  "ex_created_deal = \<lparr>deal_id = ''deal-9'', deal_title = ''Renewal'', contactName = [],
     contactEmail = [], stageLabel = [], clientCompanyName = [], companyName = []\<rparr>"

definition ex_temp_deal :: DealView where
  "ex_temp_deal = \<lparr>deal_id = ''temp-5'', deal_title = ''Renewal'', contactName = ''Ana'',
     contactEmail = ''ana@example.com'', stageLabel = ''New'', clientCompanyName = ''Acme'',
     companyName = ''Acme''\<rparr>"

definition ex_deals_cache :: QueryClient where
  "ex_deals_cache = \<lparr>boards_lists = None,
     deals_list = (\<lambda>b. if b = ''b-1'' then Some [ex_temp_deal] else None), invalidations = []\<rparr>"

definition ex_idle :: SyncState where
  "ex_idle = \<lparr>pendingInvalidations = [], pendingInvalidateOnly = [],
     pendingBoardStagesInsertCount = 0, flushScheduled = False, debounceTimer = False\<rparr>"

definition ex_utc :: TimeZone where
  "ex_utc = \<lparr>LocalTZA_utc = (\<lambda>t. 0), LocalTZA_local = (\<lambda>t. 0)\<rparr>"

definition ex_new_york :: TimeZone where
  "ex_new_york =
     \<lparr>LocalTZA_utc = (\<lambda>t. if t < 1793512800000 then - 14400000 else - 18000000),
      LocalTZA_local = (\<lambda>t. if t < 1793498400000 then - 14400000 else - 18000000)\<rparr>"

definition ex_done_7d30m :: Decision where
  "ex_done_7d30m = ex_decision\<lparr>decision_id := ''dec-10'', dealId := Some ''d10'', status := approved,
     decidedAt := Some 1793118600000\<rparr>"

definition ex_done_8d :: Decision where
  "ex_done_8d = ex_decision\<lparr>decision_id := ''dec-11'', dealId := Some ''d11'', status := rejected,
     decidedAt := Some 1793034000000\<rparr>"

definition ex_dst_queue :: Storage where
  "ex_dst_queue = \<lparr>queue_item = Some \<lparr>decisions = [ex_done_7d30m, ex_done_8d],
                    analyzerResults = [], lastAnalyzedAt = None\<rparr>,
               processed_item = None\<rparr>"

section \<open>Lemmas on the storage and the key set\<close>

lemma set_set_add: "set (set_add s k) = insert k (set s)"
  by (auto simp: set_add_def)

lemma distinct_set_add: "distinct s \<Longrightarrow> distinct (set_add s k)"
  by (simp add: set_add_def)

lemma distinct_foldl_set_add: "distinct acc \<Longrightarrow> distinct (foldl set_add acc arr)"
  by (induction arr arbitrary: acc) (simp_all add: distinct_set_add)

lemma set_foldl_set_add: "set (foldl set_add acc arr) = set acc \<union> set arr"
  by (induction arr arbitrary: acc) (auto simp: set_set_add)

lemma foldl_set_add_distinct: "distinct (acc @ arr) \<Longrightarrow> foldl set_add acc arr = acc @ arr"
  by (induction arr arbitrary: acc) (auto simp: set_add_def)

lemma length_foldl_set_add: "length (foldl set_add acc arr) \<le> length acc + length arr"
proof (induction arr arbitrary: acc)
  case Nil
  show ?case by simp
next
  case (Cons a arr)
  have "length (set_add acc a) \<le> Suc (length acc)" by (simp add: set_add_def)
  with Cons[of "set_add acc a"] show ?case by simp
qed

lemma distinct_new_Set: "distinct (new_Set arr)"
  by (simp add: new_Set_def distinct_foldl_set_add)

lemma set_new_Set: "set (new_Set arr) = set arr"
  by (simp add: new_Set_def set_foldl_set_add)

lemma new_Set_distinct: "distinct arr \<Longrightarrow> new_Set arr = arr"
  by (simp add: new_Set_def foldl_set_add_distinct)

lemma length_new_Set: "length (new_Set arr) \<le> length arr"
  using length_foldl_set_add[of "[]" arr] by (simp add: new_Set_def)

lemma length_slice_last: "length (slice_last n xs) \<le> n"
  by (simp add: slice_last_def)

lemma distinct_getProcessedDecisions: "distinct (getProcessedDecisions st)"
  by (simp add: getProcessedDecisions_def distinct_new_Set split: option.splits)

lemma processed_addProcessedDecision:
  "processed_item (addProcessedDecision key st) =
     Some (slice_last 500 (set_add (getProcessedDecisions st) key))"
  by (simp add: addProcessedDecision_def Let_def)

lemma queue_addProcessedDecision: "queue_item (addProcessedDecision key st) = queue_item st"
  by (simp add: addProcessedDecision_def Let_def)

lemma loadState_addProcessedDecision: "loadState (addProcessedDecision key st) = loadState st"
  by (simp add: loadState_def queue_addProcessedDecision)

lemma distinct_slice_last: "distinct xs \<Longrightarrow> distinct (slice_last n xs)"
  by (simp add: slice_last_def)

lemma getProcessedDecisions_addProcessedDecision:
  "getProcessedDecisions (addProcessedDecision key st) =
     slice_last 500 (set_add (getProcessedDecisions st) key)"
proof -
  have "distinct (slice_last 500 (set_add (getProcessedDecisions st) key))"
    by (intro distinct_slice_last distinct_set_add distinct_getProcessedDecisions)
  then have "new_Set (slice_last 500 (set_add (getProcessedDecisions st) key)) =
      slice_last 500 (set_add (getProcessedDecisions st) key)"
    by (rule new_Set_distinct)
  then show ?thesis
    by (subst getProcessedDecisions_def) (simp add: processed_addProcessedDecision)
qed

lemma loadState_saveState: "loadState (saveState s st) = s"
  by (simp add: loadState_def saveState_def)

lemma getProcessedDecisions_saveState: "getProcessedDecisions (saveState s st) = getProcessedDecisions st"
  by (simp add: getProcessedDecisions_def saveState_def)

lemma addDecision_skip_processed:
  "dedupeKey d \<in> set (getProcessedDecisions st) \<Longrightarrow> addDecision d st = st"
  by (simp add: addDecision_def Let_def)

lemma addDecision_skip_similar:
  "find (similarPending d) (decisions (loadState st)) = Some x \<Longrightarrow> addDecision d st = st"
  by (simp add: addDecision_def Let_def)

lemma addDecision_insert:
  "dedupeKey d \<notin> set (getProcessedDecisions st) \<Longrightarrow>
   find (similarPending d) (decisions (loadState st)) = None \<Longrightarrow>
   addDecision d st = saveState ((loadState st)\<lparr>decisions := decisions (loadState st) @ [d]\<rparr>) st"
  by (simp add: addDecision_def Let_def)

section \<open>The processed keys are bounded (C10)\<close>

lemma evict_oldest:
  assumes "key \<notin> set s" and "500 \<le> length s"
  shows "slice_last 500 (set_add s key) = drop (length s - 499) s @ [key]"
  using assms by (simp add: slice_last_def set_add_def)

lemma evicted_gone:
  assumes "distinct s" and "key \<notin> set s" and "k \<in> set (take n s)"
  shows "k \<notin> set (drop n s @ [key])"
proof -
  from assms(1) have "set (take n s) \<inter> set (drop n s) = {}"
    by (metis append_take_drop_id distinct_append)
  moreover from assms(3) have "k \<in> set s" by (rule in_set_takeD)
  ultimately show ?thesis using assms(2,3) by auto
qed

text \<open>
  Claim C10. After every call of \<^verbatim>\<open>addProcessedDecision\<close> the persisted array of
  processed dedupe keys has at most 500 entries. When the key is new and the set already
  holds 500 keys or more, the oldest entries are dropped to make room: the array is the
  last 499 keys of the set followed by the new key. A decision whose dedupe key is among
  the dropped ones was skipped by \<^verbatim>\<open>addDecision\<close> before the call, is no longer found in
  the processed array afterwards, and is inserted again by \<^verbatim>\<open>addDecision\<close> unless a
  similar pending decision is stored.
\<close>

theorem addProcessedDecision_keeps_500:
  "\<exists>arr. processed_item (addProcessedDecision key st) = Some arr \<and> length arr \<le> 500 \<and>
     (key \<notin> set (getProcessedDecisions st) \<and> 500 \<le> length (getProcessedDecisions st) \<longrightarrow>
        arr = drop (length (getProcessedDecisions st) - 499) (getProcessedDecisions st) @ [key] \<and>
        (\<forall>d. dedupeKey d \<in> set (take (length (getProcessedDecisions st) - 499) (getProcessedDecisions st)) \<longrightarrow>
           dedupeKey d \<notin> set arr \<and>
           addDecision d st = st \<and>
           (find (similarPending d) (decisions (loadState st)) = None \<longrightarrow>
              decisions (loadState (addDecision d (addProcessedDecision key st))) =
                decisions (loadState st) @ [d])))"
proof -
  let ?s = "getProcessedDecisions st"
  let ?arr = "slice_last 500 (set_add ?s key)"
  let ?st' = "addProcessedDecision key st"
  have p: "processed_item ?st' = Some ?arr" by (rule processed_addProcessedDecision)
  have len: "length ?arr \<le> 500" by (rule length_slice_last)
  have ev: "?arr = drop (length ?s - 499) ?s @ [key] \<and>
        (\<forall>d. dedupeKey d \<in> set (take (length ?s - 499) ?s) \<longrightarrow>
           dedupeKey d \<notin> set ?arr \<and> addDecision d st = st \<and>
           (find (similarPending d) (decisions (loadState st)) = None \<longrightarrow>
              decisions (loadState (addDecision d ?st')) = decisions (loadState st) @ [d]))"
    if h: "key \<notin> set ?s" "500 \<le> length ?s"
  proof (intro conjI allI impI)
    show eq: "?arr = drop (length ?s - 499) ?s @ [key]" using h by (rule evict_oldest)
    fix d assume k: "dedupeKey d \<in> set (take (length ?s - 499) ?s)"
    show gone: "dedupeKey d \<notin> set ?arr"
      unfolding eq using distinct_getProcessedDecisions h(1) k by (rule evicted_gone)
    from k have "dedupeKey d \<in> set ?s" by (rule in_set_takeD)
    then show "addDecision d st = st" by (rule addDecision_skip_processed)
    assume nf: "find (similarPending d) (decisions (loadState st)) = None"
    have "getProcessedDecisions ?st' = ?arr"
      by (rule getProcessedDecisions_addProcessedDecision)
    with gone have "dedupeKey d \<notin> set (getProcessedDecisions ?st')" by simp
    moreover from nf have "find (similarPending d) (decisions (loadState ?st')) = None"
      by (simp add: loadState_addProcessedDecision)
    ultimately have "addDecision d ?st' =
        saveState ((loadState ?st')\<lparr>decisions := decisions (loadState ?st') @ [d]\<rparr>) ?st'"
      by (rule addDecision_insert)
    then show "decisions (loadState (addDecision d ?st')) = decisions (loadState st) @ [d]"
      by (simp add: loadState_saveState loadState_addProcessedDecision)
  qed
  from p len ev show ?thesis by blast
qed


lemma distinct_ex_keys: "distinct ex_keys"
proof -
  have "inj (\<lambda>n. ''stagnant_deal:'' @ replicate (Suc n) CHR ''d'')"
    by (rule injI) (metis length_replicate nat.inject same_append_eq)
  then show ?thesis
    unfolding ex_keys_def by (simp add: distinct_map inj_on_def inj_def)
qed

lemma processed_ex_store500: "getProcessedDecisions ex_store500 = ex_keys"
  by (simp add: getProcessedDecisions_def ex_store500_def new_Set_distinct distinct_ex_keys)

lemma length_ex_keys: "length ex_keys = 500"
  by (simp add: ex_keys_def)

lemma take1_ex_keys: "take (Suc 0) ex_keys = [''stagnant_deal:d'']"
  by (simp add: ex_keys_def take_map)

lemma fresh_not_in_ex_keys: "''stagnant_deal:x'' \<notin> set ex_keys"
  by (auto simp: ex_keys_def)

lemma dedupeKey_ex_decision: "dedupeKey ex_decision = ''stagnant_deal:d''"
  by (simp add: dedupeKey_def ex_decision_def js_or_def truthy_def js_string_def)

theorem addProcessedDecision_keeps_500_witness:
  "''stagnant_deal:x'' \<notin> set (getProcessedDecisions ex_store500) \<and>
   500 \<le> length (getProcessedDecisions ex_store500) \<and>
   dedupeKey ex_decision \<in> set (take (length (getProcessedDecisions ex_store500) - 499)
                                  (getProcessedDecisions ex_store500)) \<and>
   find (similarPending ex_decision) (decisions (loadState ex_store500)) = None \<and>
   addDecision ex_decision ex_store500 = ex_store500 \<and>
   decisions (loadState (addDecision ex_decision
                (addProcessedDecision ''stagnant_deal:x'' ex_store500))) = [ex_decision]"
proof -
  have h1: "''stagnant_deal:x'' \<notin> set (getProcessedDecisions ex_store500)"
    by (simp add: processed_ex_store500 fresh_not_in_ex_keys)
  have h2: "500 \<le> length (getProcessedDecisions ex_store500)"
    by (simp add: processed_ex_store500 length_ex_keys)
  have h3: "dedupeKey ex_decision \<in> set (take (length (getProcessedDecisions ex_store500) - 499)
                                  (getProcessedDecisions ex_store500))"
    by (simp add: processed_ex_store500 length_ex_keys take1_ex_keys dedupeKey_ex_decision)
  have h4: "find (similarPending ex_decision) (decisions (loadState ex_store500)) = None"
    by (simp add: loadState_def ex_store500_def emptyState_def)
  have h5: "decisions (loadState ex_store500) = []"
    by (simp add: loadState_def ex_store500_def emptyState_def)
  from addProcessedDecision_keeps_500 [of "''stagnant_deal:x''" ex_store500] h1 h2 h3 h4 h5
  show ?thesis by auto
qed

section \<open>Pending decisions (C3)\<close>

lemma mset_insert_by: "mset (insert_by cmp x xs) = add_mset x (mset xs)"
  by (induction xs) simp_all

lemma mset_js_sort: "mset (js_sort cmp xs) = mset xs"
  by (induction xs) (simp_all add: js_sort_def mset_insert_by)

lemma set_insert_by: "set (insert_by cmp x xs) = insert x (set xs)"
  by (induction xs) auto

lemma sorted_insert_by:
  assumes total: "\<And>a b. cmp a b \<le> 0 \<or> cmp b a \<le> 0"
    and trans: "\<And>a b c. cmp a b \<le> 0 \<Longrightarrow> cmp b c \<le> 0 \<Longrightarrow> cmp a c \<le> 0"
  shows "sorted_wrt (\<lambda>a b. cmp a b \<le> 0) xs \<Longrightarrow>
         sorted_wrt (\<lambda>a b. cmp a b \<le> (0::int)) (insert_by cmp x xs)"
proof (induction xs)
  case Nil
  show ?case by simp
next
  case (Cons y ys)
  show ?case
  proof (cases "cmp x y \<le> 0")
    case True
    with Cons.prems trans have "\<forall>z\<in>set ys. cmp x z \<le> 0" by auto
    with True Cons.prems show ?thesis by simp
  next
    case False
    with total[of x y] have "cmp y x \<le> 0" by simp
    with False Cons show ?thesis by (simp add: set_insert_by)
  qed
qed

lemma sorted_js_sort:
  assumes "\<And>a b. cmp a b \<le> 0 \<or> cmp b a \<le> 0"
    and "\<And>a b c. cmp a b \<le> 0 \<Longrightarrow> cmp b c \<le> 0 \<Longrightarrow> cmp a c \<le> 0"
  shows "sorted_wrt (\<lambda>a b. cmp a b \<le> (0::int)) (js_sort cmp xs)"
proof (induction xs)
  case Nil
  show ?case by (simp add: js_sort_def)
next
  case (Cons x xs)
  have "js_sort cmp (x # xs) = insert_by cmp x (js_sort cmp xs)" by (simp add: js_sort_def)
  with sorted_insert_by[of cmp, OF assms Cons] show ?case by simp
qed

lemma compareDecisions_total: "compareDecisions a b \<le> 0 \<or> compareDecisions b a \<le> 0"
  by (auto simp: compareDecisions_def Let_def)

lemma compareDecisions_trans:
  "compareDecisions a b \<le> 0 \<Longrightarrow> compareDecisions b c \<le> 0 \<Longrightarrow> compareDecisions a c \<le> 0"
  by (auto simp: compareDecisions_def Let_def split: if_splits)

lemma compareDecisions_order:
  "compareDecisions a b \<le> 0 \<Longrightarrow>
   outranks (priority a) (priority b) \<or> (priority a = priority b \<and> createdAt b \<le> createdAt a)"
  by (cases "priority a"; cases "priority b") (simp_all add: compareDecisions_def)

lemma isPendingNow_iff:
  "isPendingNow nowTs d \<longleftrightarrow>
     status d = pending \<and>
     (case expiresAt d of None \<Rightarrow> True | Some e \<Rightarrow> nowTs \<le> e) \<and>
     (case snoozeUntil d of None \<Rightarrow> True | Some u \<Rightarrow> u \<le> nowTs)"
  by (auto simp: isPendingNow_def split: option.splits)

text \<open>
Claim C3. For every stored queue state and every current time, \<^verbatim>\<open>getPendingDecisions\<close>
  returns exactly the stored decisions (each as often as it is stored) whose status is
  pending, whose \<^verbatim>\<open>expiresAt\<close>, when present, is not before the current time, and whose
  \<^verbatim>\<open>snoozeUntil\<close>, when present, is not after it; and the result is sorted: of two
  decisions the earlier one has the higher priority in the order
  critical > high > medium > low or, at equal priority, a \<^verbatim>\<open>createdAt\<close> that is not
  older than the later one's.
\<close>

theorem getPendingDecisions_filters_and_sorts:
  "mset (getPendingDecisions nowTs st) =
     mset (filter (\<lambda>d. status d = pending \<and>
                       (case expiresAt d of None \<Rightarrow> True | Some e \<Rightarrow> nowTs \<le> e) \<and>
                       (case snoozeUntil d of None \<Rightarrow> True | Some u \<Rightarrow> u \<le> nowTs))
             (decisions (loadState st))) \<and>
   sorted_wrt (\<lambda>a b. outranks (priority a) (priority b) \<or>
                      (priority a = priority b \<and> createdAt b \<le> createdAt a))
     (getPendingDecisions nowTs st)"
proof
  have "isPendingNow nowTs = (\<lambda>d. status d = pending \<and>
                       (case expiresAt d of None \<Rightarrow> True | Some e \<Rightarrow> nowTs \<le> e) \<and>
                       (case snoozeUntil d of None \<Rightarrow> True | Some u \<Rightarrow> u \<le> nowTs))"
    by (rule ext) (rule isPendingNow_iff)
  then show "mset (getPendingDecisions nowTs st) =
     mset (filter (\<lambda>d. status d = pending \<and>
                       (case expiresAt d of None \<Rightarrow> True | Some e \<Rightarrow> nowTs \<le> e) \<and>
                       (case snoozeUntil d of None \<Rightarrow> True | Some u \<Rightarrow> u \<le> nowTs))
             (decisions (loadState st)))"
    by (simp add: getPendingDecisions_def mset_js_sort)
next
  have "sorted_wrt (\<lambda>a b. compareDecisions a b \<le> 0) (getPendingDecisions nowTs st)"
    unfolding getPendingDecisions_def
    by (rule sorted_js_sort) (rule compareDecisions_total, rule compareDecisions_trans)
  then show "sorted_wrt (\<lambda>a b. outranks (priority a) (priority b) \<or>
                      (priority a = priority b \<and> createdAt b \<le> createdAt a))
     (getPendingDecisions nowTs st)"
    by (rule sorted_wrt_mono_rel[rotated]) (rule compareDecisions_order)
qed

lemma ex_pending_queue_decisions:
  "decisions (loadState ex_pending_queue) =
     [ex_low, ex_decision, ex_expired, ex_done_old, ex_high_new, ex_snoozed_pending, ex_critical_old]"
  by (simp add: loadState_def ex_pending_queue_def)

lemma ex_pending_fields:
  "status ex_low = pending" "expiresAt ex_low = Some 6000" "snoozeUntil ex_low = Some 3000"
  "status ex_decision = pending" "expiresAt ex_decision = None" "snoozeUntil ex_decision = None"
  "status ex_expired = pending" "expiresAt ex_expired = Some 4000"
  "status ex_done_old = approved"
  "status ex_high_new = pending" "expiresAt ex_high_new = None" "snoozeUntil ex_high_new = None"
  "status ex_snoozed_pending = pending" "expiresAt ex_snoozed_pending = None"
  "snoozeUntil ex_snoozed_pending = Some 9000"
  "status ex_critical_old = pending" "expiresAt ex_critical_old = None"
  "snoozeUntil ex_critical_old = None"
  by (simp_all add: ex_low_def ex_decision_def ex_expired_def ex_done_old_def ex_high_new_def
      ex_snoozed_pending_def ex_critical_old_def)

lemma ex_pending_result:
  "getPendingDecisions 5000 ex_pending_queue = [ex_critical_old, ex_high_new, ex_decision, ex_low]"
  by (simp add: getPendingDecisions_def ex_pending_queue_decisions isPendingNow_iff ex_pending_fields
      js_sort_def)
     (simp add: compareDecisions_def ex_low_def ex_decision_def ex_high_new_def ex_critical_old_def)

theorem getPendingDecisions_filters_and_sorts_witness:
  "mset (getPendingDecisions 5000 ex_pending_queue) =
     mset [ex_low, ex_decision, ex_high_new, ex_critical_old] \<and>
   sorted_wrt (\<lambda>a b. outranks (priority a) (priority b) \<or>
                      (priority a = priority b \<and> createdAt b \<le> createdAt a))
     [ex_critical_old, ex_high_new, ex_decision, ex_low]"
  using getPendingDecisions_filters_and_sorts [of 5000 ex_pending_queue]
  by (simp add: ex_pending_queue_decisions ex_pending_fields ex_pending_result)

section \<open>Maintenance sweeps (C7)\<close>

lemma length_filter_removed:
  "int (length xs) - int (length (filter P xs)) = int (length (filter (\<lambda>x. \<not> P x) xs))"
  using sum_length_filter_compl[of P xs] by simp

lemma keepOnClearExpired_iff:
  "keepOnClearExpired now d \<longleftrightarrow> \<not> (status d = pending \<and> (\<exists>e. expiresAt d = Some e \<and> e < now))"
  by (auto simp: keepOnClearExpired_def split: option.splits)

lemma keepOnClearCompleted_Some_iff:
  "keepOnClearCompleted (Some c) d \<longleftrightarrow>
     \<not> (status d \<noteq> pending \<and> (\<exists>t. decidedAt d = Some t \<and> t < c))"
  by (auto simp: keepOnClearCompleted_def split: option.splits)

lemma keepOnClearCompleted_None: "keepOnClearCompleted None d"
  by (simp add: keepOnClearCompleted_def split: option.splits)

lemma same_time_earlier_day:
  "(Day t - n) * msPerDay + TimeWithinDay t = t - n * msPerDay"
proof -
  have "t div msPerDay * msPerDay + t mod msPerDay = t" by simp
  then show ?thesis by (simp add: Day_def TimeWithinDay_def algebra_simps)
qed

lemma setDateBack_value:
  "setDateBack tz t n =
     TimeClip (t - n * 86400000 +
       (LocalTZA_utc tz t - LocalTZA_local tz (t + LocalTZA_utc tz t - n * 86400000)))"
  by (simp add: setDateBack_def Let_def same_time_earlier_day LocalTime_def UTC_def)
     (simp add: msPerDay_def algebra_simps)

lemma TimeClip_Some: "TimeClip t = Some c \<Longrightarrow> c = t"
  by (simp add: TimeClip_def split: if_splits)

lemma loadState_clearCompleted:
  "loadState (snd (clearCompleted tz None now st)) =
     (loadState st)\<lparr>decisions :=
        filter (keepOnClearCompleted (setDateBack tz now 7)) (decisions (loadState st))\<rparr>"
  by (simp add: clearCompleted_def Let_def loadState_saveState)

lemma count_clearCompleted:
  "fst (clearCompleted tz None now st) =
     int (length (filter (\<lambda>d. \<not> keepOnClearCompleted (setDateBack tz now 7) d)
                    (decisions (loadState st))))"
  by (simp add: clearCompleted_def Let_def length_filter_removed)

text \<open>
  Seven calendar days are not always 7 times 24 hours. In New York on 3 November 2026,
  12:00 local time (17:00 UTC), two days after the clocks went back, the cutoff is 27 October
  12:00 local time (16:00 UTC), 7 days and one hour earlier: a decision approved 7 days and
  30 minutes ago is kept, and only the one rejected 8 days ago is removed. (The zone
  \<open>ex_new_york\<close> holds the offsets around that one change.)
\<close>

theorem clearCompleted_calendar_days_counterexample:
  "status ex_done_7d30m = approved \<and> decidedAt ex_done_7d30m = Some 1793118600000 \<and>
   (1793118600000::int) + 7 * 86400000 < 1793725200000 \<and>
   decisions (loadState ex_dst_queue) = [ex_done_7d30m, ex_done_8d] \<and>
   decisions (loadState (snd (clearCompleted ex_new_york None 1793725200000 ex_dst_queue))) =
     [ex_done_7d30m] \<and>
   fst (clearCompleted ex_new_york None 1793725200000 ex_dst_queue) = 1"
proof -
  have c: "setDateBack ex_new_york 1793725200000 7 = Some 1793116800000"
    by (simp add: setDateBack_value ex_new_york_def TimeClip_def maxTime_def)
  have f: "status ex_done_7d30m = approved" "decidedAt ex_done_7d30m = Some 1793118600000"
    "status ex_done_8d = rejected" "decidedAt ex_done_8d = Some 1793034000000"
    by (simp_all add: ex_done_7d30m_def ex_done_8d_def)
  have q: "decisions (loadState ex_dst_queue) = [ex_done_7d30m, ex_done_8d]"
    by (simp add: loadState_def ex_dst_queue_def)
  show ?thesis
    by (simp add: loadState_clearCompleted count_clearCompleted c q f keepOnClearCompleted_Some_iff)
qed

text \<open>
Claim C7, as amended. For every stored queue state, \<^verbatim>\<open>clearExpired\<close> removes exactly the
  pending decisions whose \<^verbatim>\<open>expiresAt\<close> is before the current time, keeps every other
  decision in place (and the rest of the state and the processed keys as they were), and
  returns the number of decisions removed. \<^verbatim>\<open>clearCompleted\<close> with its default argument
  removes exactly the non-pending decisions whose \<^verbatim>\<open>decidedAt\<close> is before its cutoff and
  returns the number removed. The cutoff is the same local wall-clock time 7 calendar days
  before the current time: the current time less 7 times 86400000 ms, shifted by the
  difference between the local UTC offset now and the one at the cutoff. Where the two
  offsets are equal (and the cutoff is in the range of a \<^verbatim>\<open>Date\<close>) the decisions removed
  are exactly the non-pending ones decided more than 7 times 86400000 ms ago. With a cutoff
  out of range nothing is removed.
\<close>

theorem clear_sweeps_remove_exactly:
  "loadState (snd (clearExpired now st)) =
     (loadState st)\<lparr>decisions :=
        filter (\<lambda>d. \<not> (status d = pending \<and> (\<exists>e. expiresAt d = Some e \<and> e < now)))
          (decisions (loadState st))\<rparr> \<and>
   fst (clearExpired now st) =
     int (length (filter (\<lambda>d. status d = pending \<and> (\<exists>e. expiresAt d = Some e \<and> e < now))
                    (decisions (loadState st)))) \<and>
   processed_item (snd (clearExpired now st)) = processed_item st \<and>
   (\<forall>c. setDateBack tz now 7 = Some c \<longrightarrow>
      c = now - 7 * 86400000 +
            (LocalTZA_utc tz now - LocalTZA_local tz (now + LocalTZA_utc tz now - 7 * 86400000)) \<and>
      loadState (snd (clearCompleted tz None now st)) =
        (loadState st)\<lparr>decisions :=
           filter (\<lambda>d. \<not> (status d \<noteq> pending \<and> (\<exists>t. decidedAt d = Some t \<and> t < c)))
             (decisions (loadState st))\<rparr> \<and>
      fst (clearCompleted tz None now st) =
        int (length (filter (\<lambda>d. status d \<noteq> pending \<and> (\<exists>t. decidedAt d = Some t \<and> t < c))
                       (decisions (loadState st))))) \<and>
   (LocalTZA_local tz (now + LocalTZA_utc tz now - 7 * 86400000) = LocalTZA_utc tz now \<and>
    \<bar>now - 7 * 86400000\<bar> \<le> maxTime \<longrightarrow>
      loadState (snd (clearCompleted tz None now st)) =
        (loadState st)\<lparr>decisions :=
           filter (\<lambda>d. \<not> (status d \<noteq> pending \<and>
                          (\<exists>t. decidedAt d = Some t \<and> t + 7 * 86400000 < now)))
             (decisions (loadState st))\<rparr> \<and>
      fst (clearCompleted tz None now st) =
        int (length (filter (\<lambda>d. status d \<noteq> pending \<and>
                                  (\<exists>t. decidedAt d = Some t \<and> t + 7 * 86400000 < now))
                       (decisions (loadState st))))) \<and>
   (setDateBack tz now 7 = None \<longrightarrow>
      loadState (snd (clearCompleted tz None now st)) = loadState st \<and>
      fst (clearCompleted tz None now st) = 0) \<and>
   processed_item (snd (clearCompleted tz None now st)) = processed_item st"
proof -
  have e: "keepOnClearExpired now =
      (\<lambda>d. \<not> (status d = pending \<and> (\<exists>e. expiresAt d = Some e \<and> e < now)))"
    by (rule ext) (rule keepOnClearExpired_iff)
  have 1: "loadState (snd (clearExpired now st)) =
      (loadState st)\<lparr>decisions := filter (keepOnClearExpired now) (decisions (loadState st))\<rparr>"
    by (simp add: clearExpired_def Let_def loadState_saveState)
  have 2: "fst (clearExpired now st) =
      int (length (filter (\<lambda>d. \<not> keepOnClearExpired now d) (decisions (loadState st))))"
    by (simp add: clearExpired_def Let_def length_filter_removed)
  have 3: "processed_item (snd (clearExpired now st)) = processed_item st"
    by (simp add: clearExpired_def Let_def saveState_def)
  have k: "keepOnClearCompleted (Some c) =
      (\<lambda>d. \<not> (status d \<noteq> pending \<and> (\<exists>t. decidedAt d = Some t \<and> t < c)))" for c
    by (rule ext) (rule keepOnClearCompleted_Some_iff)
  have 4: "c = now - 7 * 86400000 +
            (LocalTZA_utc tz now - LocalTZA_local tz (now + LocalTZA_utc tz now - 7 * 86400000)) \<and>
      loadState (snd (clearCompleted tz None now st)) =
        (loadState st)\<lparr>decisions :=
           filter (\<lambda>d. \<not> (status d \<noteq> pending \<and> (\<exists>t. decidedAt d = Some t \<and> t < c)))
             (decisions (loadState st))\<rparr> \<and>
      fst (clearCompleted tz None now st) =
        int (length (filter (\<lambda>d. status d \<noteq> pending \<and> (\<exists>t. decidedAt d = Some t \<and> t < c))
                       (decisions (loadState st))))"
    if h: "setDateBack tz now 7 = Some c" for c
  proof -
    from h have "c = now - 7 * 86400000 +
            (LocalTZA_utc tz now - LocalTZA_local tz (now + LocalTZA_utc tz now - 7 * 86400000))"
      unfolding setDateBack_value by (rule TimeClip_Some)
    then show ?thesis
      using loadState_clearCompleted[of tz now st] count_clearCompleted[of tz now st]
      unfolding h k by simp
  qed
  have 5: "loadState (snd (clearCompleted tz None now st)) =
        (loadState st)\<lparr>decisions :=
           filter (\<lambda>d. \<not> (status d \<noteq> pending \<and>
                          (\<exists>t. decidedAt d = Some t \<and> t + 7 * 86400000 < now)))
             (decisions (loadState st))\<rparr> \<and>
      fst (clearCompleted tz None now st) =
        int (length (filter (\<lambda>d. status d \<noteq> pending \<and>
                                  (\<exists>t. decidedAt d = Some t \<and> t + 7 * 86400000 < now))
                       (decisions (loadState st))))"
    if h: "LocalTZA_local tz (now + LocalTZA_utc tz now - 7 * 86400000) = LocalTZA_utc tz now \<and>
           \<bar>now - 7 * 86400000\<bar> \<le> maxTime"
  proof -
    from h have s: "setDateBack tz now 7 = Some (now - 7 * 86400000)"
      unfolding setDateBack_value by (simp add: TimeClip_def)
    have r: "(t < now - 7 * 86400000) = (t + 7 * 86400000 < now)" for t :: int by auto
    from 4[OF s] show ?thesis unfolding r by simp
  qed
  have 6: "loadState (snd (clearCompleted tz None now st)) = loadState st \<and>
      fst (clearCompleted tz None now st) = 0"
    if h: "setDateBack tz now 7 = None"
    using loadState_clearCompleted[of tz now st] count_clearCompleted[of tz now st]
    unfolding h by (simp add: keepOnClearCompleted_None)
  have 7: "processed_item (snd (clearCompleted tz None now st)) = processed_item st"
    by (simp add: clearCompleted_def Let_def saveState_def)
  from 1 2 3 show ?thesis unfolding e using 4 5 6 7 by simp
qed

lemma ex_queue_decisions:
  "decisions (loadState ex_queue) = [ex_decision, ex_expired, ex_done_old, ex_done_recent]"
  by (simp add: loadState_def ex_queue_def)

theorem clear_sweeps_remove_exactly_witness:
  "decisions (loadState (snd (clearExpired 5000 ex_queue))) =
     [ex_decision, ex_done_old, ex_done_recent] \<and>
   fst (clearExpired 5000 ex_queue) = 1 \<and>
   setDateBack ex_utc 700000000 7 = Some 95200000 \<and>
   decisions (loadState (snd (clearCompleted ex_utc None 700000000 ex_queue))) =
     [ex_decision, ex_expired, ex_done_recent] \<and>
   fst (clearCompleted ex_utc None 700000000 ex_queue) = 1 \<and>
   setDateBack ex_new_york 1793725200000 7 = Some 1793116800000 \<and>
   decisions (loadState (snd (clearCompleted ex_new_york None 1793725200000 ex_dst_queue))) =
     [ex_done_7d30m] \<and>
   fst (clearCompleted ex_new_york None 1793725200000 ex_dst_queue) = 1"
proof -
  have s: "status ex_decision = pending" "status ex_expired = pending"
    "status ex_done_old = approved" "status ex_done_recent = rejected"
    "expiresAt ex_decision = None" "expiresAt ex_expired = Some 4000"
    "decidedAt ex_done_old = Some 1000" "decidedAt ex_done_recent = Some 700000000"
    "status ex_done_7d30m = approved" "decidedAt ex_done_7d30m = Some 1793118600000"
    "status ex_done_8d = rejected" "decidedAt ex_done_8d = Some 1793034000000"
    by (simp_all add: ex_decision_def ex_expired_def ex_done_old_def ex_done_recent_def
        ex_done_7d30m_def ex_done_8d_def)
  have q: "decisions (loadState ex_dst_queue) = [ex_done_7d30m, ex_done_8d]"
    by (simp add: loadState_def ex_dst_queue_def)
  have c1: "setDateBack ex_utc 700000000 7 = Some 95200000"
    by (simp add: setDateBack_value ex_utc_def TimeClip_def maxTime_def)
  have c2: "setDateBack ex_new_york 1793725200000 7 = Some 1793116800000"
    by (simp add: setDateBack_value ex_new_york_def TimeClip_def maxTime_def)
  from clear_sweeps_remove_exactly [of 5000 ex_queue ex_utc]
  have a: "decisions (loadState (snd (clearExpired 5000 ex_queue))) =
       [ex_decision, ex_done_old, ex_done_recent] \<and> fst (clearExpired 5000 ex_queue) = 1"
    by (simp add: ex_queue_decisions s)
  from clear_sweeps_remove_exactly [of 700000000 ex_queue ex_utc] c1
  have b: "decisions (loadState (snd (clearCompleted ex_utc None 700000000 ex_queue))) =
       [ex_decision, ex_expired, ex_done_recent] \<and>
     fst (clearCompleted ex_utc None 700000000 ex_queue) = 1"
    by (simp add: ex_queue_decisions s)
  from clear_sweeps_remove_exactly [of 1793725200000 ex_dst_queue ex_new_york] c2
  have d: "decisions (loadState (snd (clearCompleted ex_new_york None 1793725200000 ex_dst_queue))) =
       [ex_done_7d30m] \<and>
     fst (clearCompleted ex_new_york None 1793725200000 ex_dst_queue) = 1"
    by (simp add: q s)
  from a b d c1 c2 show ?thesis by simp
qed

section \<open>Approving a decision (C4)\<close>

lemma find_Some_split:
  "find P xs = Some d \<Longrightarrow> \<exists>ys zs. xs = ys @ d # zs \<and> (\<forall>y\<in>set ys. \<not> P y) \<and> P d"
proof (induction xs)
  case Nil
  then show ?case by simp
next
  case (Cons x xs)
  show ?case
  proof (cases "P x")
    case True
    with Cons.prems have "x = d" by simp
    with True have "x # xs = [] @ d # xs \<and> (\<forall>y\<in>set []. \<not> P y) \<and> P d" by simp
    then show ?thesis by blast
  next
    case False
    with Cons.prems have "find P xs = Some d" by simp
    from Cons.IH[OF this] obtain ys zs where
      "xs = ys @ d # zs" "\<forall>y\<in>set ys. \<not> P y" "P d" by blast
    with False have "x # xs = (x # ys) @ d # zs \<and> (\<forall>y\<in>set (x # ys). \<not> P y) \<and> P d" by simp
    then show ?thesis by blast
  qed
qed

lemma update_first_split:
  "(\<forall>y\<in>set ys. \<not> P y) \<Longrightarrow> P d \<Longrightarrow> update_first P f (ys @ d # zs) = ys @ f d # zs"
  by (induction ys) simp_all

lemma find_split:
  "(\<forall>y\<in>set ys. \<not> P y) \<Longrightarrow> P d \<Longrightarrow> find P (ys @ d # zs) = Some d"
  by (induction ys) simp_all

lemma length_getProcessedDecisions:
  "processedBounded st \<Longrightarrow> length (getProcessedDecisions st) \<le> 500"
proof (cases "processed_item st")
  case None
  then show ?thesis by (simp add: getProcessedDecisions_def)
next
  case (Some arr)
  assume "processedBounded st"
  with Some have "length arr \<le> 500" by (simp add: processedBounded_def)
  with length_new_Set[of arr] have "length (new_Set arr) \<le> 500" by simp
  with Some show ?thesis by (simp add: getProcessedDecisions_def)
qed

lemma key_survives_slice:
  assumes "length s \<le> 500"
  shows "key \<in> set (slice_last 500 (set_add s key))"
proof (cases "key \<in> set s")
  case True
  with assms show ?thesis by (simp add: set_add_def slice_last_def)
next
  case False
  then show ?thesis by (simp add: set_add_def slice_last_def)
qed

lemma processedBounded_addProcessedDecision: "processedBounded (addProcessedDecision key st)"
  by (simp add: processedBounded_def processed_addProcessedDecision length_slice_last)

lemma processedBounded_saveState: "processedBounded (saveState s st) = processedBounded st"
  by (simp add: processedBounded_def saveState_def)

lemma processedBounded_addDecision: "processedBounded st \<Longrightarrow> processedBounded (addDecision d st)"
  by (simp add: addDecision_def Let_def processedBounded_saveState split: option.splits)

lemma processedBounded_addDecisions:
  "processedBounded st \<Longrightarrow> processedBounded (snd (addDecisions ds st))"
  by (simp add: addDecisions_def processedBounded_saveState split: prod.splits)

lemma processedBounded_updateDecisionStatus:
  "processedBounded st \<Longrightarrow> processedBounded (updateDecisionStatus i s now st)"
  by (simp add: updateDecisionStatus_def Let_def processedBounded_saveState
      processedBounded_addProcessedDecision split: option.splits)

lemma processedBounded_approveDecisionWith:
  "processedBounded st \<Longrightarrow>
   processedBounded (snd (snd (approveDecisionWith exec i modifiedPayload now st)))"
  by (simp add: approveDecisionWith_def Let_def processedBounded_updateDecisionStatus
      split: option.splits)

lemma processedBounded_clearExpired:
  "processedBounded st \<Longrightarrow> processedBounded (snd (clearExpired now st))"
  by (simp add: clearExpired_def Let_def processedBounded_saveState)

lemma processedBounded_clearCompleted:
  "processedBounded st \<Longrightarrow> processedBounded (snd (clearCompleted tz n now st))"
  by (simp add: clearCompleted_def Let_def processedBounded_saveState)

lemma processedBounded_initial: "processedBounded \<lparr>queue_item = None, processed_item = None\<rparr>"
  by (simp add: processedBounded_def)

lemma updateDecisionStatus_found:
  assumes "find (\<lambda>d. decision_id d = i) (decisions (loadState st)) = Some d"
  shows "updateDecisionStatus i approved now st =
     saveState ((loadState st)\<lparr>decisions :=
         update_first (\<lambda>d. decision_id d = i) (\<lambda>d. d\<lparr>status := approved, decidedAt := Some now\<rparr>)
           (decisions (loadState st))\<rparr>)
       (addProcessedDecision (dedupeKey d) st)"
  using assms by (simp add: updateDecisionStatus_def Let_def)

lemma updateDecisionStatus_approved:
  assumes f: "getDecisionById i st = Some d" and b: "processedBounded st"
  shows "getDecisionById i (updateDecisionStatus i approved now st) =
           Some (d\<lparr>status := approved, decidedAt := Some now\<rparr>) \<and>
         (\<exists>before after. decisions (loadState st) = before @ d # after \<and>
            decisions (loadState (updateDecisionStatus i approved now st)) =
              before @ d\<lparr>status := approved, decidedAt := Some now\<rparr> # after) \<and>
         dedupeKey d \<in> set (getProcessedDecisions (updateDecisionStatus i approved now st))"
proof -
  let ?P = "\<lambda>d. decision_id d = i"
  let ?f = "\<lambda>d. d\<lparr>status := approved, decidedAt := Some now\<rparr>"
  from f have fd: "find ?P (decisions (loadState st)) = Some d" by (simp add: getDecisionById_def)
  from find_Some_split[OF fd] obtain ys zs where
    sp: "decisions (loadState st) = ys @ d # zs" "\<forall>y\<in>set ys. \<not> ?P y" "?P d" by blast
  have u: "updateDecisionStatus i approved now st =
     saveState ((loadState st)\<lparr>decisions := update_first ?P ?f (decisions (loadState st))\<rparr>)
       (addProcessedDecision (dedupeKey d) st)"
    using fd by (rule updateDecisionStatus_found)
  have d': "decisions (loadState (updateDecisionStatus i approved now st)) = ys @ ?f d # zs"
    unfolding u using sp by (simp add: loadState_saveState update_first_split)
  from sp(3) have "?P (?f d)" by simp
  with sp(2) have "find ?P (ys @ ?f d # zs) = Some (?f d)" by (rule find_split)
  with d' have 1: "getDecisionById i (updateDecisionStatus i approved now st) = Some (?f d)"
    by (simp add: getDecisionById_def)
  have "getProcessedDecisions (updateDecisionStatus i approved now st) =
      slice_last 500 (set_add (getProcessedDecisions st) (dedupeKey d))"
    unfolding u by (simp add: getProcessedDecisions_saveState getProcessedDecisions_addProcessedDecision)
  with key_survives_slice[OF length_getProcessedDecisions[OF b], of "dedupeKey d"]
  have 3: "dedupeKey d \<in> set (getProcessedDecisions (updateDecisionStatus i approved now st))"
    by simp
  from 1 sp(1) d' 3 show ?thesis by blast
qed

lemma approveDecisionWith_pending:
  assumes "getDecisionById i st = Some d" and "status d = pending"
  shows "approveDecisionWith exec i modifiedPayload now st =
     (let finalPayload = (case modifiedPayload of
                            Some m \<Rightarrow> payload (suggestedAction d) ++ m
                          | None \<Rightarrow> payload (suggestedAction d));
          res = exec (action_type (suggestedAction d)) finalPayload
      in (res, [(action_type (suggestedAction d), finalPayload)],
          if success res then updateDecisionStatus i approved now st else st))"
  using assms by (simp add: approveDecisionWith_def)

text \<open>
Claim C4. For a stored decision that is pending (the one \<^verbatim>\<open>getDecisionById\<close> finds)
  and every optional partial payload override, \<^verbatim>\<open>approveDecision\<close> makes exactly one
  executor call, with the type of the suggested action and the decision's payload merged
  with the override, a field of the override winning over the decision's; it returns the
  executor's result. When that result reports success, the decision's status is
  approved and its \<^verbatim>\<open>decidedAt\<close> is the current time, every other decision is as before,
  and the dedupe key of the decision is in the processed set. When it does not, the
  storage is unchanged. The executor of the service always reports success. The storage
  is one the service has produced (its processed array has at most 500 entries, an
  invariant by the lemmas above).
\<close>

theorem approveDecision_executes_and_marks:
  assumes "getDecisionById i st = Some d" and "status d = pending" and "processedBounded st"
  shows "\<exists>merged res st'.
     approveDecisionWith exec i modifiedPayload now st =
       (res, [(action_type (suggestedAction d), merged)], st') \<and>
     res = exec (action_type (suggestedAction d)) merged \<and>
     (\<forall>k. merged k =
        (case modifiedPayload of
           None \<Rightarrow> payload (suggestedAction d) k
         | Some m \<Rightarrow> (case m k of Some v \<Rightarrow> Some v | None \<Rightarrow> payload (suggestedAction d) k))) \<and>
     (success res \<longrightarrow>
        getDecisionById i st' = Some (d\<lparr>status := approved, decidedAt := Some now\<rparr>) \<and>
        (\<exists>before after. decisions (loadState st) = before @ d # after \<and>
           decisions (loadState st') =
             before @ d\<lparr>status := approved, decidedAt := Some now\<rparr> # after) \<and>
        dedupeKey d \<in> set (getProcessedDecisions st')) \<and>
     (\<not> success res \<longrightarrow> st' = st) \<and>
     success (fst (approveDecision i modifiedPayload now st))"
proof -
  define merged where "merged = (case modifiedPayload of
      Some m \<Rightarrow> payload (suggestedAction d) ++ m | None \<Rightarrow> payload (suggestedAction d))"
  define res where "res = exec (action_type (suggestedAction d)) merged"
  define st' where "st' = (if success res then updateDecisionStatus i approved now st else st)"
  have a: "approveDecisionWith exec i modifiedPayload now st =
      (res, [(action_type (suggestedAction d), merged)], st')"
    using approveDecisionWith_pending[OF assms(1,2), of exec modifiedPayload now]
    by (simp add: Let_def merged_def res_def st'_def)
  have m: "\<forall>k. merged k =
        (case modifiedPayload of
           None \<Rightarrow> payload (suggestedAction d) k
         | Some m \<Rightarrow> (case m k of Some v \<Rightarrow> Some v | None \<Rightarrow> payload (suggestedAction d) k))"
    by (simp add: merged_def map_add_def split: option.splits)
  have s: "getDecisionById i st' = Some (d\<lparr>status := approved, decidedAt := Some now\<rparr>) \<and>
        (\<exists>before after. decisions (loadState st) = before @ d # after \<and>
           decisions (loadState st') =
             before @ d\<lparr>status := approved, decidedAt := Some now\<rparr> # after) \<and>
        dedupeKey d \<in> set (getProcessedDecisions st')" if "success res"
    using that updateDecisionStatus_approved[OF assms(1,3), of now] by (simp add: st'_def)
  have f: "st' = st" if "\<not> success res" using that by (simp add: st'_def)
  have e: "success (fst (approveDecision i modifiedPayload now st))"
    using approveDecisionWith_pending[OF assms(1,2), of executeAction modifiedPayload now]
    by (simp add: approveDecision_def Let_def executeAction_def)
  from a m s f e res_def show ?thesis by blast
qed

lemma ex_action_queue_found:
  "getDecisionById ''dec-5'' ex_action_queue = Some ex_action_decision"
  by (simp add: getDecisionById_def loadState_def ex_action_queue_def ex_done_old_def
      ex_action_decision_def ex_decision_def)

lemma ex_action_decision_pending: "status ex_action_decision = pending"
  by (simp add: ex_action_decision_def ex_decision_def)

lemma ex_action_queue_bounded: "processedBounded ex_action_queue"
  by (simp add: processedBounded_def ex_action_queue_def)

lemma dedupeKey_ex_action_decision: "dedupeKey ex_action_decision = ''stagnant_deal:d5''"
  by (simp add: dedupeKey_def ex_action_decision_def ex_decision_def js_or_def truthy_def js_string_def)

theorem approveDecision_executes_and_marks_witness:
  "getDecisionById ''dec-5'' ex_action_queue = Some ex_action_decision \<and>
   status ex_action_decision = pending \<and> processedBounded ex_action_queue \<and>
   success (fst (approveDecision ''dec-5'' (Some ex_override) 9000 ex_action_queue)) \<and>
   (\<exists>merged. fst (snd (approveDecision ''dec-5'' (Some ex_override) 9000 ex_action_queue)) =
        [(''create_task'', merged)] \<and>
      merged ''title'' = Some (JString ''Call back'') \<and> merged ''days'' = Some (JNumber 3)) \<and>
   getDecisionById ''dec-5''
       (snd (snd (approveDecision ''dec-5'' (Some ex_override) 9000 ex_action_queue))) =
     Some (ex_action_decision\<lparr>status := approved, decidedAt := Some 9000\<rparr>) \<and>
   ''stagnant_deal:d5'' \<in> set (getProcessedDecisions
       (snd (snd (approveDecision ''dec-5'' (Some ex_override) 9000 ex_action_queue))))"
proof -
  from approveDecision_executes_and_marks
    [OF ex_action_queue_found ex_action_decision_pending ex_action_queue_bounded,
     of executeAction "Some ex_override" 9000]
  obtain merged res st' where
    a: "approveDecisionWith executeAction ''dec-5'' (Some ex_override) 9000 ex_action_queue =
          (res, [(action_type (suggestedAction ex_action_decision), merged)], st')" and
    r: "res = executeAction (action_type (suggestedAction ex_action_decision)) merged" and
    m: "\<forall>k. merged k = (case ex_override k of Some v \<Rightarrow> Some v
                          | None \<Rightarrow> payload (suggestedAction ex_action_decision) k)" and
    s: "success res \<longrightarrow>
          getDecisionById ''dec-5'' st' =
            Some (ex_action_decision\<lparr>status := approved, decidedAt := Some 9000\<rparr>) \<and>
          dedupeKey ex_action_decision \<in> set (getProcessedDecisions st')"
    by auto
  from r have ok: "success res" by (simp add: executeAction_def)
  have t: "action_type (suggestedAction ex_action_decision) = ''create_task''"
    by (simp add: ex_action_decision_def ex_decision_def)
  from m have m1: "merged ''title'' = Some (JString ''Call back'')"
    by (simp add: ex_override_def)
  from m have m2: "merged ''days'' = Some (JNumber 3)"
    by (simp add: ex_override_def ex_action_decision_def ex_decision_def)
  from a ok s t m1 m2 show ?thesis
    by (simp add: approveDecision_def ex_action_queue_found ex_action_decision_pending
        ex_action_queue_bounded dedupeKey_ex_action_decision)
qed

section \<open>Approving an unknown or settled decision (C9)\<close>

lemma approveDecisionWith_missing:
  "getDecisionById i st = None \<Longrightarrow>
   approveDecisionWith exec i modifiedPayload now st =
     (\<lparr>success = False, error = Some msg_not_found, result = None\<rparr>, [], st)"
  by (simp add: approveDecisionWith_def)

lemma approveDecisionWith_settled:
  "getDecisionById i st = Some d \<Longrightarrow> status d \<noteq> pending \<Longrightarrow>
   approveDecisionWith exec i modifiedPayload now st =
     (\<lparr>success = False, error = Some msg_already_processed, result = None\<rparr>, [], st)"
  by (simp add: approveDecisionWith_def)

lemma getDecisionById_None_iff:
  "getDecisionById i st = None \<longleftrightarrow> (\<forall>d\<in>set (decisions (loadState st)). decision_id d \<noteq> i)"
  by (auto simp: getDecisionById_def find_None_iff)

text \<open>
  Claim C9. When no stored decision has the id, or the stored decision with the id is not
  pending, \<^verbatim>\<open>approveDecision\<close> returns a failure with an error message, makes no
  executor call, and leaves the storage exactly as it was, whatever the executor and the
  payload override.
\<close>

theorem approveDecision_refuses_without_effect:
  assumes "(\<forall>d\<in>set (decisions (loadState st)). decision_id d \<noteq> i) \<or>
           (\<exists>d. getDecisionById i st = Some d \<and> status d \<noteq> pending)"
  shows "\<exists>msg. msg \<noteq> [] \<and>
     approveDecisionWith exec i modifiedPayload now st =
       (\<lparr>success = False, error = Some msg, result = None\<rparr>, [], st) \<and>
     approveDecision i modifiedPayload now st =
       (\<lparr>success = False, error = Some msg, result = None\<rparr>, [], st)"
  using assms
proof
  assume "\<forall>d\<in>set (decisions (loadState st)). decision_id d \<noteq> i"
  then have n: "getDecisionById i st = None" by (simp add: getDecisionById_None_iff)
  have "msg_not_found \<noteq> []" by (simp add: msg_not_found_def)
  with approveDecisionWith_missing[OF n] show ?thesis
    unfolding approveDecision_def by blast
next
  assume "\<exists>d. getDecisionById i st = Some d \<and> status d \<noteq> pending"
  then obtain d where d: "getDecisionById i st = Some d" "status d \<noteq> pending" by blast
  have "msg_already_processed \<noteq> []" by (simp add: msg_already_processed_def)
  with approveDecisionWith_settled[OF d] show ?thesis
    unfolding approveDecision_def by blast
qed

theorem approveDecision_refuses_without_effect_witness:
  "getDecisionById ''dec-404'' ex_action_queue = None \<and>
   getDecisionById ''dec-3'' ex_action_queue = Some ex_done_old \<and> status ex_done_old \<noteq> pending \<and>
   \<not> success (fst (approveDecision ''dec-404'' None 9000 ex_action_queue)) \<and>
   snd (approveDecision ''dec-404'' None 9000 ex_action_queue) = ([], ex_action_queue) \<and>
   \<not> success (fst (approveDecision ''dec-3'' (Some ex_override) 9000 ex_action_queue)) \<and>
   snd (approveDecision ''dec-3'' (Some ex_override) 9000 ex_action_queue) = ([], ex_action_queue)"
proof -
  have h1: "\<forall>d\<in>set (decisions (loadState ex_action_queue)). decision_id d \<noteq> ''dec-404''"
    by (simp add: loadState_def ex_action_queue_def ex_done_old_def ex_action_decision_def
        ex_decision_def)
  have h2: "getDecisionById ''dec-3'' ex_action_queue = Some ex_done_old"
    by (simp add: getDecisionById_def loadState_def ex_action_queue_def ex_done_old_def
        ex_decision_def)
  have h3: "status ex_done_old \<noteq> pending" by (simp add: ex_done_old_def)
  from h2 h3 have h4: "\<exists>d. getDecisionById ''dec-3'' ex_action_queue = Some d \<and> status d \<noteq> pending"
    by blast
  from approveDecision_refuses_without_effect [of ex_action_queue "''dec-404''", OF disjI1, OF h1,
         of executeAction None 9000]
       approveDecision_refuses_without_effect [of ex_action_queue "''dec-3''", OF disjI2, OF h4,
         of executeAction "Some ex_override" 9000]
       h1 h2 h3
  show ?thesis by (auto simp: getDecisionById_None_iff)
qed

section \<open>Adding similar decisions (C2)\<close>

lemma decisions_addDecision:
  "decisions (loadState (addDecision d st)) =
     decisions (loadState st) @
       (if dedupeKey d \<notin> set (getProcessedDecisions st) \<and>
           find (similarPending d) (decisions (loadState st)) = None then [d] else [])"
  by (simp add: addDecision_def Let_def loadState_saveState split: option.splits)

lemma getProcessedDecisions_addDecision:
  "getProcessedDecisions (addDecision d st) = getProcessedDecisions st"
  by (simp add: addDecision_def Let_def getProcessedDecisions_saveState split: option.splits)

lemma addDecisions_two:
  "addDecisions_loop processed [d1, d2] (state, 0) =
     (let ins1 = (if dedupeKey d1 \<notin> set processed \<and>
                     find (similarPending d1) (decisions state) = None then [d1] else []);
          ins2 = (if dedupeKey d2 \<notin> set processed \<and>
                     find (similarPending d2) (decisions state @ ins1) = None then [d2] else [])
      in (state\<lparr>decisions := decisions state @ ins1 @ ins2\<rparr>, length (ins1 @ ins2)))"
  by (simp add: Let_def split: option.splits)

lemma decisions_addDecisions_two:
  "decisions (loadState (snd (addDecisions [d1, d2] st))) =
     decisions (loadState (addDecision d2 (addDecision d1 st))) \<and>
   int (fst (addDecisions [d1, d2] st)) =
     int (length (decisions (loadState (addDecision d2 (addDecision d1 st))))) -
     int (length (decisions (loadState st)))"
  unfolding addDecisions_def addDecisions_two
  by (simp add: Let_def loadState_saveState decisions_addDecision getProcessedDecisions_addDecision)

text \<open>
  Identical type and \<^verbatim>\<open>dealId\<close> do not suffice: the search for a similar pending
  decision also compares \<^verbatim>\<open>contactId\<close>, so two decisions on the same deal with
  different contacts are both inserted, by either operation.
\<close>

theorem addDecision_two_same_type_deal_counterexample:
  "decision_type ex_dup_a = decision_type ex_dup_b \<and> dealId ex_dup_a = dealId ex_dup_b \<and>
   decisions (loadState ex_empty) = [] \<and>
   decisions (loadState (addDecision ex_dup_b (addDecision ex_dup_a ex_empty))) = [ex_dup_a, ex_dup_b] \<and>
   fst (addDecisions [ex_dup_a, ex_dup_b] ex_empty) = 2 \<and>
   decisions (loadState (snd (addDecisions [ex_dup_a, ex_dup_b] ex_empty))) = [ex_dup_a, ex_dup_b]"
  by (simp add: addDecisions_def addDecision_def Let_def loadState_def saveState_def
      getProcessedDecisions_def ex_empty_def emptyState_def ex_dup_a_def ex_dup_b_def
      ex_decision_def similarPending_def)

lemma similarPending_cong:
  assumes "decision_type d1 = decision_type d2" "dealId d1 = dealId d2" "contactId d1 = contactId d2"
  shows "similarPending d2 = similarPending d1"
  using assms by (intro ext) (simp add: similarPending_def)

lemma find_snoc_hit: "P x \<Longrightarrow> find P (xs @ [x]) \<noteq> None"
  by (auto simp: find_None_iff)

text \<open>
Claim C2, as amended. For any two decision records with identical type, identical
  \<^verbatim>\<open>dealId\<close> and identical \<^verbatim>\<open>contactId\<close>, the first of them pending, adding both (by
  \<^verbatim>\<open>addDecision\<close> twice, or both in one \<^verbatim>\<open>addDecisions\<close> call) inserts at most one of
  them into the stored queue, and \<^verbatim>\<open>addDecisions\<close> returns the number inserted; exactly
  the first one is inserted when its dedupe key is not processed and no similar pending
  decision is stored.
\<close>

theorem addDecision_dedupes_similar:
  assumes "decision_type d1 = decision_type d2" and "dealId d1 = dealId d2"
    and "contactId d1 = contactId d2" and "status d1 = pending"
  shows "\<exists>ins. length ins \<le> 1 \<and> set ins \<subseteq> {d1, d2} \<and>
     decisions (loadState (addDecision d2 (addDecision d1 st))) = decisions (loadState st) @ ins \<and>
     decisions (loadState (snd (addDecisions [d1, d2] st))) = decisions (loadState st) @ ins \<and>
     fst (addDecisions [d1, d2] st) = length ins \<and>
     (dedupeKey d1 \<notin> set (getProcessedDecisions st) \<and>
      find (similarPending d1) (decisions (loadState st)) = None \<longrightarrow> ins = [d1])"
proof -
  let ?q = "decisions (loadState st)"
  let ?in1 = "dedupeKey d1 \<notin> set (getProcessedDecisions st) \<and> find (similarPending d1) ?q = None"
  let ?in2 = "dedupeKey d2 \<notin> set (getProcessedDecisions st) \<and> find (similarPending d1) ?q = None"
  define ins where "ins = (if ?in1 then [d1] else if ?in2 then [d2] else [])"
  have sp: "similarPending d2 = similarPending d1" using assms(1-3) by (rule similarPending_cong)
  have hit: "similarPending d1 d1" using assms(4) by (simp add: similarPending_def)
  have two: "decisions (loadState (addDecision d2 (addDecision d1 st))) = ?q @ ins"
  proof (cases ?in1)
    case True
    then have "decisions (loadState (addDecision d1 st)) = ?q @ [d1]"
      by (simp add: decisions_addDecision)
    moreover have "find (similarPending d1) (?q @ [d1]) \<noteq> None" using hit by (rule find_snoc_hit)
    ultimately show ?thesis using True
      by (simp add: decisions_addDecision[of d2] sp ins_def)
  next
    case False
    then have "decisions (loadState (addDecision d1 st)) = ?q"
      by (simp add: decisions_addDecision)
    then show ?thesis using False
      by (auto simp: decisions_addDecision[of d2] sp ins_def getProcessedDecisions_addDecision)
  qed
  have l: "length ins \<le> 1" by (simp add: ins_def)
  have s: "set ins \<subseteq> {d1, d2}" by (auto simp: ins_def)
  from decisions_addDecisions_two[of d1 d2 st] two
  have b: "decisions (loadState (snd (addDecisions [d1, d2] st))) = ?q @ ins"
    and c: "fst (addDecisions [d1, d2] st) = length ins" by simp_all
  have f: "?in1 \<longrightarrow> ins = [d1]" by (simp add: ins_def)
  from l s two b c f show ?thesis by blast
qed

theorem addDecision_dedupes_similar_witness:
  "decision_type ex_dup_a = decision_type ex_dup_c \<and> dealId ex_dup_a = dealId ex_dup_c \<and>
   contactId ex_dup_a = contactId ex_dup_c \<and> status ex_dup_a = pending \<and>
   ex_dup_a \<noteq> ex_dup_c \<and>
   decisions (loadState (addDecision ex_dup_c (addDecision ex_dup_a ex_empty))) = [ex_dup_a] \<and>
   decisions (loadState (snd (addDecisions [ex_dup_a, ex_dup_c] ex_empty))) = [ex_dup_a] \<and>
   fst (addDecisions [ex_dup_a, ex_dup_c] ex_empty) = 1"
proof -
  have h: "decision_type ex_dup_a = decision_type ex_dup_c" "dealId ex_dup_a = dealId ex_dup_c"
    "contactId ex_dup_a = contactId ex_dup_c" "status ex_dup_a = pending"
    by (simp_all add: ex_dup_a_def ex_dup_c_def ex_decision_def)
  have n: "ex_dup_a \<noteq> ex_dup_c"
  proof
    assume "ex_dup_a = ex_dup_c"
    then have "decision_id ex_dup_a = decision_id ex_dup_c" by simp
    then show False by (simp add: ex_dup_a_def ex_dup_c_def)
  qed
  have e: "getProcessedDecisions ex_empty = []" "decisions (loadState ex_empty) = []"
    by (simp_all add: getProcessedDecisions_def loadState_def ex_empty_def emptyState_def)
  from addDecision_dedupes_similar [OF h, of ex_empty] h n e show ?thesis by auto
qed

section \<open>Lemmas on the query cache\<close>

lemma boards_createBoard_onMutate:
  "\<exists>tempBoard. board_id tempBoard = tempId (fst (createBoard_onMutate suffix now vars qc)) \<and>
     boards_lists (snd (createBoard_onMutate suffix now vars qc)) =
       Some (tempBoard # old_or_empty (boards_lists qc)) \<and>
     previousBoards (fst (createBoard_onMutate suffix now vars qc)) = boards_lists qc"
  by (simp add: createBoard_onMutate_def Let_def)

lemma tempId_createBoard_onMutate: "tempId (fst (createBoard_onMutate suffix now vars qc)) \<noteq> []"
  by (simp add: createBoard_onMutate_def Let_def split: option.splits)

lemma createBoard_onError_restores:
  "previousBoards c = Some cached \<Longrightarrow>
   boards_lists (createBoard_onError (Some c) qc') = Some cached"
  by (simp add: createBoard_onError_def)

lemma boards_invalidateQueries: "boards_lists (invalidateQueries k rt qc) = boards_lists qc"
  by (simp add: invalidateQueries_def)

lemma invalidations_invalidateQueries:
  "invalidations (invalidateQueries k rt qc) = invalidations qc @ [(k, rt)]"
  by (simp add: invalidateQueries_def)

section \<open>Rollback of a failed board creation (C1)\<close>

lemma useCreateBoard_Rejected:
  "useCreateBoard suffix now vars inflight Rejected qc =
     createBoard_onSettled
       (createBoard_onError (Some (fst (createBoard_onMutate suffix now vars qc)))
          (inflight (snd (createBoard_onMutate suffix now vars qc))))"
  by (simp add: useCreateBoard_def runMutation_def Let_def split: prod.splits)

text \<open>
Claim C1. For every cached boards list, the optimistic insert of \<^verbatim>\<open>useCreateBoard\<close>
  (\<^verbatim>\<open>onMutate\<close>) puts a temp board in front of the list and keeps the list as the
  snapshot; when the remote write then fails, \<^verbatim>\<open>onError\<close> sets the cached boards list
  to exactly that snapshot, whatever happened to the cache while the write was in flight,
  and so does the whole run of the mutation.
\<close>

theorem createBoard_failure_restores_snapshot:
  assumes "boards_lists qc = Some cached"
  shows "(\<exists>tempBoard. boards_lists (snd (createBoard_onMutate suffix now vars qc)) =
            Some (tempBoard # cached)) \<and>
         boards_lists (createBoard_onError (Some (fst (createBoard_onMutate suffix now vars qc))) qc') =
            Some cached \<and>
         boards_lists (useCreateBoard suffix now vars inflight Rejected qc) = Some cached"
proof -
  let ?c = "fst (createBoard_onMutate suffix now vars qc)"
  from boards_createBoard_onMutate[of suffix now vars qc] assms
  have ins: "\<exists>tempBoard. boards_lists (snd (createBoard_onMutate suffix now vars qc)) =
            Some (tempBoard # cached)"
    and prev: "previousBoards ?c = Some cached"
    by (auto simp: old_or_empty_def)
  have r: "boards_lists (createBoard_onError (Some ?c) q) = Some cached" for q
    using prev by (rule createBoard_onError_restores)
  have "boards_lists (useCreateBoard suffix now vars inflight Rejected qc) = Some cached"
    unfolding useCreateBoard_Rejected createBoard_onSettled_def
    by (simp add: boards_invalidateQueries r)
  with ins r show ?thesis by blast
qed

theorem createBoard_failure_restores_snapshot_witness:
  "boards_lists ex_cache = Some [ex_server_board] \<and>
   boards_lists (snd (createBoard_onMutate ''1-abc'' 7000 ex_vars ex_cache)) =
     Some [\<lparr>board_id = ''temp-1-abc'', board_name = ''Partners'', stages = [], isDefault = False,
            board_createdAt = 7000\<rparr>, ex_server_board] \<and>
   boards_lists (useCreateBoard ''1-abc'' 7000 ex_vars (\<lambda>q. q) Rejected ex_cache) =
     Some [ex_server_board]"
proof -
  have h: "boards_lists ex_cache = Some [ex_server_board]" by (simp add: ex_cache_def)
  have m: "boards_lists (snd (createBoard_onMutate ''1-abc'' 7000 ex_vars ex_cache)) =
     Some [\<lparr>board_id = ''temp-1-abc'', board_name = ''Partners'', stages = [], isDefault = False,
            board_createdAt = 7000\<rparr>, ex_server_board]"
    by (simp add: createBoard_onMutate_def Let_def ex_vars_def ex_cache_def old_or_empty_def)
  from createBoard_failure_restores_snapshot [OF h, of "''1-abc''" 7000 ex_vars _ "\<lambda>q. q"] h m
  show ?thesis by simp
qed

lemma createBoard_failure_without_cache:
  assumes "boards_lists qc = None"
  shows "\<exists>tempBoard. boards_lists (useCreateBoard suffix now vars (\<lambda>q. q) Rejected qc) =
           Some [tempBoard]"
  unfolding useCreateBoard_Rejected createBoard_onSettled_def
  using assms
  by (simp add: boards_invalidateQueries createBoard_onError_def createBoard_onMutate_def Let_def
      old_or_empty_def)

section \<open>Invalidation after a mutation settles (C8)\<close>

lemma invalidations_createBoard_onSettled:
  "invalidations (createBoard_onSettled qc) = invalidations qc @ [(boards_all, refetch_active)]"
  by (simp add: createBoard_onSettled_def invalidations_invalidateQueries)

lemma invalidations_updateBoard_onSettled:
  "invalidations (updateBoard_onSettled qc) = invalidations qc @ [(boards_all, refetch_active)]"
  by (simp add: updateBoard_onSettled_def invalidations_invalidateQueries)

lemma invalidations_deleteBoard_onSettled:
  "invalidations (deleteBoard_onSettled qc) =
     invalidations qc @ [(boards_all, refetch_active), (deals_all, refetch_active)]"
  by (simp add: deleteBoard_onSettled_def invalidations_invalidateQueries)

lemma runMutation_settles:
  "\<exists>qc3. runMutation onMutate onSuccess onError onSettled vars inflight out qc = onSettled qc3"
  by (auto simp: runMutation_def Let_def split: prod.splits)

lemma useCreateBoard_settles:
  "\<exists>q. useCreateBoard suffix now vars inflight out qc = createBoard_onSettled q"
  unfolding useCreateBoard_def by (rule runMutation_settles)

lemma useUpdateBoard_settles:
  "\<exists>q. useUpdateBoard vars inflight out qc = updateBoard_onSettled q"
  unfolding useUpdateBoard_def by (rule runMutation_settles)

lemma useDeleteBoard_settles:
  "\<exists>q. useDeleteBoard i inflight out qc = deleteBoard_onSettled q"
  unfolding useDeleteBoard_def by (rule runMutation_settles)

text \<open>
  Claim C8. For every run of the create, update and delete mutations of a board, whether
  the remote write succeeded or failed and whatever happened to the cache meanwhile, the
  last thing the run does is to invalidate the queries under \<^verbatim>\<open>queryKeys.boards.all\<close>
  (the delete mutation then also invalidates the deals queries).
\<close>

theorem board_mutations_invalidate_on_settle:
  "(\<exists>log. invalidations (useCreateBoard suffix now cvars inflight cout qc) =
            log @ [(boards_all, refetch_active)]) \<and>
   (\<exists>log. invalidations (useUpdateBoard uvars inflight uout qc) =
            log @ [(boards_all, refetch_active)]) \<and>
   (\<exists>log. invalidations (useDeleteBoard i inflight dout qc) =
            log @ [(boards_all, refetch_active), (deals_all, refetch_active)])"
proof (intro conjI)
  from useCreateBoard_settles obtain q where
    "useCreateBoard suffix now cvars inflight cout qc = createBoard_onSettled q" by blast
  then show "\<exists>log. invalidations (useCreateBoard suffix now cvars inflight cout qc) =
            log @ [(boards_all, refetch_active)]"
    by (simp add: invalidations_createBoard_onSettled)
next
  from useUpdateBoard_settles obtain q where
    "useUpdateBoard uvars inflight uout qc = updateBoard_onSettled q" by blast
  then show "\<exists>log. invalidations (useUpdateBoard uvars inflight uout qc) =
            log @ [(boards_all, refetch_active)]"
    by (simp add: invalidations_updateBoard_onSettled)
next
  from useDeleteBoard_settles obtain q where
    "useDeleteBoard i inflight dout qc = deleteBoard_onSettled q" by blast
  then show "\<exists>log. invalidations (useDeleteBoard i inflight dout qc) =
            log @ [(boards_all, refetch_active), (deals_all, refetch_active)]"
    by (simp add: invalidations_deleteBoard_onSettled)
qed

theorem board_mutations_invalidate_on_settle_witness:
  "invalidations (useCreateBoard ''1-abc'' 7000 ex_vars (\<lambda>q. q) (Resolved ex_created_board) ex_cache) =
     [(boards_all, refetch_active)] \<and>
   invalidations (useUpdateBoard (''b-1'', ex_updates) (\<lambda>q. q) Rejected ex_cache) =
     [(boards_all, refetch_active)] \<and>
   invalidations (useDeleteBoard ''b-1'' (\<lambda>q. q) Rejected ex_cache) =
     [(boards_all, refetch_active), (deals_all, refetch_active)]"
proof -
  have e: "invalidations ex_cache = []" by (simp add: ex_cache_def)
  have 1: "length (invalidations (useCreateBoard ''1-abc'' 7000 ex_vars (\<lambda>q. q)
              (Resolved ex_created_board) ex_cache)) = 1"
    by (simp add: useCreateBoard_def runMutation_def Let_def createBoard_onMutate_def
        createBoard_onSuccess_def createBoard_onSettled_def invalidateQueries_def e)
  have 2: "length (invalidations (useUpdateBoard (''b-1'', ex_updates) (\<lambda>q. q) Rejected ex_cache)) = 1"
    by (simp add: useUpdateBoard_def runMutation_def Let_def updateBoard_onMutate_def
        updateBoard_onError_def updateBoard_onSettled_def invalidateQueries_def e
        split: option.splits)
  have 3: "length (invalidations (useDeleteBoard ''b-1'' (\<lambda>q. q) Rejected ex_cache)) = 2"
    by (simp add: useDeleteBoard_def runMutation_def Let_def deleteBoard_onMutate_def
        deleteBoard_onError_def deleteBoard_onSettled_def invalidateQueries_def e
        split: option.splits)
  from board_mutations_invalidate_on_settle
         [where suffix = "''1-abc''" and now = 7000 and cvars = ex_vars and inflight = "\<lambda>q. q"
            and cout = "Resolved ex_created_board" and qc = ex_cache
            and uvars = "(''b-1'', ex_updates)" and uout = Rejected
            and i = "''b-1''" and dout = Rejected]
  obtain l1 l2 l3 where
    a: "invalidations (useCreateBoard ''1-abc'' 7000 ex_vars (\<lambda>q. q) (Resolved ex_created_board)
          ex_cache) = l1 @ [(boards_all, refetch_active)]" and
    b: "invalidations (useUpdateBoard (''b-1'', ex_updates) (\<lambda>q. q) Rejected ex_cache) =
          l2 @ [(boards_all, refetch_active)]" and
    c: "invalidations (useDeleteBoard ''b-1'' (\<lambda>q. q) Rejected ex_cache) =
          l3 @ [(boards_all, refetch_active), (deals_all, refetch_active)]"
    by blast
  from a 1 have "l1 = []" by simp
  moreover from b 2 have "l2 = []" by simp
  moreover from c 3 have "l3 = []" by simp
  ultimately show ?thesis using a b c by simp
qed

section \<open>Reconciling the created record (C5)\<close>

lemma reconciled_no_temp:
  "key new \<noteq> tid \<Longrightarrow> \<forall>x\<in>set (reconciled key tid new old). key x \<noteq> tid"
  by (simp add: reconciled_def)

lemma filter_server_without_temp:
  "sid \<noteq> tid \<Longrightarrow>
   filter (\<lambda>x. key x = sid) (filter (\<lambda>x. key x \<noteq> tid) old) = filter (\<lambda>x. key x = sid) old"
  by (induction old) simp_all

lemma reconciled_once:
  assumes "key new \<noteq> tid" and "length (filter (\<lambda>x. key x = key new) old) \<le> 1"
  shows "length (filter (\<lambda>x. key x = key new) (reconciled key tid new old)) = 1"
proof (cases "list_ex (\<lambda>x. key x = key new) (filter (\<lambda>x. key x \<noteq> tid) old)")
  case True
  then have "filter (\<lambda>x. key x = key new) (filter (\<lambda>x. key x \<noteq> tid) old) \<noteq> []"
    by (auto simp: list_ex_iff filter_empty_conv)
  then have "filter (\<lambda>x. key x = key new) old \<noteq> []"
    using assms(1) by (simp add: filter_server_without_temp del: filter_filter)
  with assms(2) have "length (filter (\<lambda>x. key x = key new) old) = 1"
    by (cases "filter (\<lambda>x. key x = key new) old") simp_all
  with True assms(1) show ?thesis
    by (simp add: reconciled_def filter_server_without_temp del: filter_filter)
next
  case False
  then have "filter (\<lambda>x. key x = key new) (filter (\<lambda>x. key x \<noteq> tid) old) = []"
    by (auto simp: list_ex_iff filter_empty_conv)
  with False show ?thesis by (simp add: reconciled_def del: filter_filter)
qed

lemma reconciled_already:
  assumes "key new \<noteq> tid" and "list_ex (\<lambda>x. key x = key new) old"
  shows "reconciled key tid new old = filter (\<lambda>x. key x \<noteq> tid) old"
proof -
  from assms have "list_ex (\<lambda>x. key x = key new) (filter (\<lambda>x. key x \<noteq> tid) old)"
    by (auto simp: list_ex_iff)
  then show ?thesis by (simp add: reconciled_def)
qed

lemma boards_createBoard_onSuccess:
  "tempId c \<noteq> [] \<Longrightarrow>
   boards_lists (createBoard_onSuccess data (Some c) qc) =
     Some (reconciled board_id (tempId c) data (old_or_empty (boards_lists qc)))"
  by (simp add: createBoard_onSuccess_def Let_def reconciled_def)

lemma deals_addDeal_reconcile:
  "boardId \<noteq> [] \<Longrightarrow>
   deals_list (addDeal_reconcile boardId tid labels (Some created) qc) boardId =
     Some (reconciled deal_id tid
             (created\<lparr>contactName := optimisticContactName labels,
                   contactEmail := optimisticContactEmail labels,
                   stageLabel := optimisticStageLabel labels,
                   clientCompanyName := optimisticCompanyName labels,
                   companyName := optimisticCompanyName labels\<rparr>)
             (old_or_empty (deals_list qc boardId)))"
  by (simp add: addDeal_reconcile_def setDealsList_def Let_def reconciled_def)

text \<open>
  The reconciliation tests for the presence of the server's id and inserts nothing when
  it is there; it does not remove records. A cached list that holds the server's record
  twice still holds it twice afterwards.
\<close>

theorem reconcile_keeps_duplicates_counterexample:
  "boards_lists (createBoard_onSuccess ex_created_board (Some ex_context) ex_cache_twice) =
     Some [ex_created_board, ex_created_board] \<and>
   length (filter (\<lambda>b. board_id b = board_id ex_created_board)
             [ex_created_board, ex_created_board]) = 2"
  by (simp add: createBoard_onSuccess_def Let_def ex_context_def ex_cache_twice_def
      old_or_empty_def ex_temp_board_def ex_created_board_def)

text \<open>
Claim C5, as amended. When a remote create succeeds, for every cached list that holds at
  most one record with the server's id, and a temp id different from the server's id, the
  reconciliation (\<^verbatim>\<open>onSuccess\<close> of \<^verbatim>\<open>useCreateBoard\<close>, and \<^verbatim>\<open>addDeal\<close> for the deals
  of the board) leaves the cached list with no record carrying the temp id and with
  exactly one record carrying the server's id; when a record with the server's id is
  already cached (a realtime event delivered it), nothing is inserted: the list is the
  cached one without the temp records.
\<close>

theorem reconcile_replaces_temp:
  assumes "board_id data \<noteq> tempId c" and "tempId c \<noteq> []"
    and "length (filter (\<lambda>b. board_id b = board_id data) (old_or_empty (boards_lists qc))) \<le> 1"
    and "deal_id created \<noteq> tid" and "boardId \<noteq> []"
    and "length (filter (\<lambda>d. deal_id d = deal_id created) (old_or_empty (deals_list qc boardId))) \<le> 1"
  shows "(\<exists>new. boards_lists (createBoard_onSuccess data (Some c) qc) = Some new \<and>
            (\<forall>b\<in>set new. board_id b \<noteq> tempId c) \<and>
            length (filter (\<lambda>b. board_id b = board_id data) new) = 1 \<and>
            (list_ex (\<lambda>b. board_id b = board_id data) (old_or_empty (boards_lists qc)) \<longrightarrow>
               new = filter (\<lambda>b. board_id b \<noteq> tempId c) (old_or_empty (boards_lists qc)))) \<and>
         (\<exists>new. deals_list (addDeal_reconcile boardId tid labels (Some created) qc) boardId = Some new \<and>
            (\<forall>d\<in>set new. deal_id d \<noteq> tid) \<and>
            length (filter (\<lambda>d. deal_id d = deal_id created) new) = 1 \<and>
            (list_ex (\<lambda>d. deal_id d = deal_id created) (old_or_empty (deals_list qc boardId)) \<longrightarrow>
               new = filter (\<lambda>d. deal_id d \<noteq> tid) (old_or_empty (deals_list qc boardId))))"
proof (intro conjI)
  let ?old = "old_or_empty (boards_lists qc)"
  let ?new = "reconciled board_id (tempId c) data ?old"
  have 1: "boards_lists (createBoard_onSuccess data (Some c) qc) = Some ?new"
    using assms(2) by (rule boards_createBoard_onSuccess)
  have 2: "\<forall>b\<in>set ?new. board_id b \<noteq> tempId c"
    using assms(1) by (rule reconciled_no_temp)
  have 3: "length (filter (\<lambda>b. board_id b = board_id data) ?new) = 1"
    using assms(1,3) by (rule reconciled_once)
  have 4: "list_ex (\<lambda>b. board_id b = board_id data) ?old \<longrightarrow>
             ?new = filter (\<lambda>b. board_id b \<noteq> tempId c) ?old"
    using assms(1) by (intro impI reconciled_already)
  show "\<exists>new. boards_lists (createBoard_onSuccess data (Some c) qc) = Some new \<and>
            (\<forall>b\<in>set new. board_id b \<noteq> tempId c) \<and>
            length (filter (\<lambda>b. board_id b = board_id data) new) = 1 \<and>
            (list_ex (\<lambda>b. board_id b = board_id data) (old_or_empty (boards_lists qc)) \<longrightarrow>
               new = filter (\<lambda>b. board_id b \<noteq> tempId c) (old_or_empty (boards_lists qc)))"
    by (rule exI[of _ ?new]) (intro conjI 1 2 3 4)
next
  let ?old = "old_or_empty (deals_list qc boardId)"
  let ?view = "created\<lparr>contactName := optimisticContactName labels,
                   contactEmail := optimisticContactEmail labels,
                   stageLabel := optimisticStageLabel labels,
                   clientCompanyName := optimisticCompanyName labels,
                   companyName := optimisticCompanyName labels\<rparr>"
  let ?new = "reconciled deal_id tid ?view ?old"
  have v: "deal_id ?view = deal_id created" by simp
  have 1: "deals_list (addDeal_reconcile boardId tid labels (Some created) qc) boardId = Some ?new"
    using assms(5) by (rule deals_addDeal_reconcile)
  have n: "deal_id ?view \<noteq> tid" using assms(4) by simp
  have 2: "\<forall>d\<in>set ?new. deal_id d \<noteq> tid"
    using n by (rule reconciled_no_temp)
  have "length (filter (\<lambda>d. deal_id d = deal_id ?view) ?old) \<le> 1"
    using assms(6) by simp
  with n have "length (filter (\<lambda>d. deal_id d = deal_id ?view) ?new) = 1"
    by (rule reconciled_once)
  then have 3: "length (filter (\<lambda>d. deal_id d = deal_id created) ?new) = 1"
    unfolding v .
  have "list_ex (\<lambda>d. deal_id d = deal_id ?view) ?old \<longrightarrow>
             ?new = filter (\<lambda>d. deal_id d \<noteq> tid) ?old"
    using n by (intro impI reconciled_already)
  then have 4: "list_ex (\<lambda>d. deal_id d = deal_id created) ?old \<longrightarrow>
             ?new = filter (\<lambda>d. deal_id d \<noteq> tid) ?old"
    unfolding v .
  show "\<exists>new. deals_list (addDeal_reconcile boardId tid labels (Some created) qc) boardId = Some new \<and>
            (\<forall>d\<in>set new. deal_id d \<noteq> tid) \<and>
            length (filter (\<lambda>d. deal_id d = deal_id created) new) = 1 \<and>
            (list_ex (\<lambda>d. deal_id d = deal_id created) (old_or_empty (deals_list qc boardId)) \<longrightarrow>
               new = filter (\<lambda>d. deal_id d \<noteq> tid) (old_or_empty (deals_list qc boardId)))"
    by (rule exI[of _ ?new]) (intro conjI 1 2 3 4)
qed

theorem reconcile_replaces_temp_witness:
  "board_id ex_created_board \<noteq> tempId ex_context \<and> tempId ex_context \<noteq> [] \<and>
   deal_id ex_created_deal \<noteq> ''temp-5'' \<and>
   boards_lists (createBoard_onSuccess ex_created_board (Some ex_context) ex_cache_delivered) =
     Some [ex_created_board, ex_server_board] \<and>
   deals_list (addDeal_reconcile ''b-1'' ''temp-5'' ex_labels (Some ex_created_deal)
                 (ex_cache_delivered\<lparr>deals_list := deals_list ex_deals_cache\<rparr>)) ''b-1'' =
     Some [ex_temp_deal\<lparr>deal_id := ''deal-9''\<rparr>]"
proof -
  let ?qc = "ex_cache_delivered\<lparr>deals_list := deals_list ex_deals_cache\<rparr>"
  have b: "old_or_empty (boards_lists ex_cache_delivered) =
      [ex_temp_board, ex_created_board, ex_server_board]"
    by (simp add: ex_cache_delivered_def old_or_empty_def)
  have d: "old_or_empty (deals_list ex_deals_cache ''b-1'') = [ex_temp_deal]"
    by (simp add: ex_deals_cache_def old_or_empty_def)
  have ids: "board_id ex_temp_board = ''temp-1-abc''" "board_id ex_created_board = ''b-2''"
    "board_id ex_server_board = ''b-1''" "tempId ex_context = ''temp-1-abc''"
    "deal_id ex_temp_deal = ''temp-5''" "deal_id ex_created_deal = ''deal-9''"
    by (simp_all add: ex_temp_board_def ex_created_board_def ex_server_board_def ex_context_def
        ex_temp_deal_def ex_created_deal_def)
  have h1: "board_id ex_created_board \<noteq> tempId ex_context" by (simp add: ids)
  have h2: "tempId ex_context \<noteq> []" by (simp add: ids)
  have h3: "length (filter (\<lambda>b. board_id b = board_id ex_created_board)
              (old_or_empty (boards_lists ?qc))) \<le> 1"
    by (simp add: b ids)
  have h4: "deal_id ex_created_deal \<noteq> ''temp-5''" by (simp add: ids)
  have h5: "''b-1'' \<noteq> []" by simp
  have h6: "length (filter (\<lambda>d. deal_id d = deal_id ex_created_deal)
              (old_or_empty (deals_list ?qc ''b-1''))) \<le> 1"
    by (simp add: d ids)
  have same: "boards_lists (createBoard_onSuccess ex_created_board (Some ex_context) ?qc) =
      boards_lists (createBoard_onSuccess ex_created_board (Some ex_context) ex_cache_delivered)"
    by (simp add: createBoard_onSuccess_def Let_def ids)
  have eb: "boards_lists (createBoard_onSuccess ex_created_board (Some ex_context) ex_cache_delivered) =
      Some [ex_created_board, ex_server_board]"
    using b by (simp add: createBoard_onSuccess_def Let_def ids)
  have ed: "deals_list (addDeal_reconcile ''b-1'' ''temp-5'' ex_labels (Some ex_created_deal) ?qc) ''b-1'' =
      Some [ex_temp_deal\<lparr>deal_id := ''deal-9''\<rparr>]"
    using d by (simp add: addDeal_reconcile_def setDealsList_def Let_def ids)
      (simp add: ex_created_deal_def ex_temp_deal_def ex_labels_def)
  from reconcile_replaces_temp [OF h1 h2 h3 h4 h5 h6, of ex_labels] h1 h2 h4 eb ed
  show ?thesis by simp
qed

section \<open>Bursts of board_stages inserts (C6)\<close>

lemma set_add_idem: "set_add (set_add xs k) k = set_add xs k"
  by (simp add: set_add_def)

lemma onPayload_board_stages_insert:
  "onPayload board_stages INSERT s =
     s\<lparr>pendingInvalidateOnly := set_add (pendingInvalidateOnly s) boards_all,
       pendingBoardStagesInsertCount := pendingBoardStagesInsertCount s + 1,
       flushScheduled := True\<rparr>"
  by (simp add: onPayload_def Let_def)

lemma board_stages_inserts_pending:
  "0 < n \<Longrightarrow>
   foldl (\<lambda>acc (table, ev). onPayload table ev acc) s (replicate n (board_stages, INSERT)) =
     s\<lparr>pendingInvalidateOnly := set_add (pendingInvalidateOnly s) boards_all,
       pendingBoardStagesInsertCount := pendingBoardStagesInsertCount s + n,
       flushScheduled := True\<rparr>"
proof (induction n arbitrary: s)
  case 0
  then show ?case by simp
next
  case (Suc n)
  show ?case
  proof (cases "n = 0")
    case True
    then show ?thesis by (simp add: onPayload_board_stages_insert)
  next
    case False
    then have "0 < n" by simp
    from Suc.IH[OF this, of "onPayload board_stages INSERT s"]
    show ?thesis by (simp add: onPayload_board_stages_insert set_add_idem)
  qed
qed

lemma invalidations_foldl_invalidateQueries:
  "invalidations (foldl (\<lambda>q k. invalidateQueries k rt q) qc ks) =
     invalidations qc @ map (\<lambda>k. (k, rt)) ks"
  by (induction ks arbitrary: qc) (simp_all add: invalidations_invalidateQueries)

lemma invalidations_flush:
  "invalidations (snd (flush s qc)) =
     invalidations qc @ map (\<lambda>k. (k, refetch_all)) (pendingInvalidations s) @
       map (\<lambda>k. (k, if pendingBoardStagesInsertCount s \<le> 1 then refetch_all else refetch_none))
         (pendingInvalidateOnly s)"
  by (simp add: flush_def Let_def invalidations_foldl_invalidateQueries)

lemma idle_after_flush: "idle (fst (flush s qc))"
  by (simp add: flush_def Let_def idle_def)

lemma idle_after_debounceFire: "idle s \<Longrightarrow> idle (fst (debounceFire s qc))"
  by (simp add: debounceFire_def idle_def)

text \<open>
  In the states the hook reaches, the invalidate-only set is empty or holds the boards key
  alone: a batch of \<^verbatim>\<open>board_stages\<close> inserts then leaves exactly that key in it.
\<close>

lemma invalidateOnly_onPayload:
  "pendingInvalidateOnly s = [] \<or> pendingInvalidateOnly s = [boards_all] \<Longrightarrow>
   pendingInvalidateOnly (onPayload table ev s) = [] \<or>
   pendingInvalidateOnly (onPayload table ev s) = [boards_all]"
  by (auto simp: onPayload_def Let_def set_add_def)

lemma invalidateOnly_flush: "pendingInvalidateOnly (fst (flush s qc)) = []"
  by (simp add: flush_def Let_def)

lemma invalidateOnly_debounceFire:
  "pendingInvalidateOnly (fst (debounceFire s qc)) = pendingInvalidateOnly s"
  by (simp add: debounceFire_def)

lemma invalidateOnly_boards:
  "pendingInvalidateOnly s = [] \<or> pendingInvalidateOnly s = [boards_all] \<Longrightarrow>
   set_add (pendingInvalidateOnly s) boards_all = [boards_all]"
  by (auto simp: set_add_def)

text \<open>
  The flush drains the keys waiting for the debounce timer as well, each with a refetch.
  A \<^verbatim>\<open>board_stages\<close> update puts the boards key among them; when a burst of two inserts
  follows before the timer fires, the count is 2 and the flush still refetches the boards
  queries, before it marks them invalidated.
\<close>

theorem burst_after_update_refetches_counterexample:
  "pendingBoardStagesInsertCount
     (foldl (\<lambda>acc (table, ev). onPayload table ev acc) (onPayload board_stages UPDATE ex_idle)
        [(board_stages, INSERT), (board_stages, INSERT)]) = 2 \<and>
   invalidations (snd (deliverBatch [(board_stages, INSERT), (board_stages, INSERT)]
                         (onPayload board_stages UPDATE ex_idle) ex_cache)) =
     [(boards_all, refetch_all), (boards_all, refetch_none)]"
  by (simp add: deliverBatch_def flush_def onPayload_def Let_def set_add_def ex_idle_def
      ex_cache_def invalidateQueries_def)

text \<open>
Claim C6, as amended. For every batch of one or more \<^verbatim>\<open>board_stages\<close> INSERT events
  received before a single microtask flush, in whatever state the batch begins, the
  handler adds the number of events to the counter, and the flush first invalidates, with
  a refetch, every key other events left pending, and then invalidates the boards queries
  with refetch type \<^verbatim>\<open>'all'\<close> (a refetch) when the counted number of \<^verbatim>\<open>board_stages\<close>
  inserts is at most one, and with refetch type \<^verbatim>\<open>'none'\<close> (marked invalidated) when it
  is greater than one. In a burst the boards queries are therefore not refetched provided
  the boards key is not among the keys other events left pending. The refs are idle
  after the flush.
\<close>

theorem board_stages_inserts_flush:
  assumes "0 < n"
  shows "\<exists>calls.
     invalidations (snd (deliverBatch (replicate n (board_stages, INSERT)) s qc)) =
       invalidations qc @ calls \<and>
     calls = map (\<lambda>k. (k, refetch_all)) (pendingInvalidations s) @
             map (\<lambda>k. (k, if pendingBoardStagesInsertCount s + n \<le> 1
                          then refetch_all else refetch_none))
               (set_add (pendingInvalidateOnly s) boards_all) \<and>
     pendingBoardStagesInsertCount
       (foldl (\<lambda>acc (table, ev). onPayload table ev acc) s (replicate n (board_stages, INSERT))) =
       pendingBoardStagesInsertCount s + n \<and>
     (pendingBoardStagesInsertCount s + n \<le> 1 \<longrightarrow> (boards_all, refetch_all) \<in> set calls) \<and>
     (1 < pendingBoardStagesInsertCount s + n \<longrightarrow>
        (boards_all, refetch_none) \<in> set calls \<and>
        (boards_all \<notin> set (pendingInvalidations s) \<longrightarrow> (boards_all, refetch_all) \<notin> set calls)) \<and>
     idle (fst (deliverBatch (replicate n (board_stages, INSERT)) s qc))"
proof -
  let ?s1 = "foldl (\<lambda>acc (table, ev). onPayload table ev acc) s (replicate n (board_stages, INSERT))"
  let ?c = "pendingBoardStagesInsertCount s + n"
  let ?rt = "if ?c \<le> 1 then refetch_all else refetch_none"
  let ?only = "set_add (pendingInvalidateOnly s) boards_all"
  let ?calls = "map (\<lambda>k. (k, refetch_all)) (pendingInvalidations s) @ map (\<lambda>k. (k, ?rt)) ?only"
  have s1: "?s1 = s\<lparr>pendingInvalidateOnly := ?only, pendingBoardStagesInsertCount := ?c,
                    flushScheduled := True\<rparr>"
    using assms by (rule board_stages_inserts_pending)
  have c: "pendingBoardStagesInsertCount ?s1 = ?c" by (simp add: s1)
  have d: "deliverBatch (replicate n (board_stages, INSERT)) s qc = flush ?s1 qc"
    by (simp add: deliverBatch_def Let_def s1)
  have i: "invalidations (snd (deliverBatch (replicate n (board_stages, INSERT)) s qc)) =
      invalidations qc @ ?calls"
    unfolding d invalidations_flush by (simp add: s1)
  have m: "boards_all \<in> set ?only" by (simp add: set_set_add)
  have a: "?c \<le> 1 \<longrightarrow> (boards_all, refetch_all) \<in> set ?calls"
    using m by auto
  have b: "1 < ?c \<longrightarrow> (boards_all, refetch_none) \<in> set ?calls \<and>
        (boards_all \<notin> set (pendingInvalidations s) \<longrightarrow> (boards_all, refetch_all) \<notin> set ?calls)"
    using m by auto
  have e: "idle (fst (deliverBatch (replicate n (board_stages, INSERT)) s qc))"
    unfolding d by (rule idle_after_flush)
  show ?thesis
    by (rule exI[of _ ?calls]) (intro conjI i refl c a b e)
qed

theorem board_stages_inserts_flush_witness:
  "invalidations (snd (deliverBatch [(board_stages, INSERT)] ex_idle ex_cache)) =
     [(boards_all, refetch_all)] \<and>
   invalidations (snd (deliverBatch
       [(board_stages, INSERT), (board_stages, INSERT), (board_stages, INSERT)] ex_idle ex_cache)) =
     [(boards_all, refetch_none)] \<and>
   invalidations (snd (deliverBatch [(board_stages, INSERT), (board_stages, INSERT)]
       (onPayload deals INSERT ex_idle) ex_cache)) =
     [(deals_all, refetch_all), (dashboard_stats, refetch_all), (boards_all, refetch_none)] \<and>
   idle (fst (deliverBatch [(board_stages, INSERT), (board_stages, INSERT)]
       (onPayload deals INSERT ex_idle) ex_cache))"
proof -
  have e: "invalidations ex_cache = []" by (simp add: ex_cache_def)
  have r1: "replicate 1 (board_stages, INSERT) = [(board_stages, INSERT)]" by simp
  have r2: "replicate 2 (board_stages, INSERT) = [(board_stages, INSERT), (board_stages, INSERT)]"
    by (simp add: numeral_2_eq_2)
  have r3: "replicate 3 (board_stages, INSERT) =
      [(board_stages, INSERT), (board_stages, INSERT), (board_stages, INSERT)]"
    by (simp add: numeral_3_eq_3)
  have i: "pendingInvalidations ex_idle = []" "pendingInvalidateOnly ex_idle = []"
    "pendingBoardStagesInsertCount ex_idle = 0"
    by (simp_all add: ex_idle_def)
  have p: "pendingInvalidations (onPayload deals INSERT ex_idle) = [deals_all, dashboard_stats]"
    "pendingInvalidateOnly (onPayload deals INSERT ex_idle) = []"
    "pendingBoardStagesInsertCount (onPayload deals INSERT ex_idle) = 0"
    by (simp_all add: onPayload_def Let_def set_add_def ex_idle_def)
  have z: "(0::nat) < 1" "(0::nat) < 2" "(0::nat) < 3" by simp_all
  from board_stages_inserts_flush [OF z(1), of ex_idle ex_cache]
       board_stages_inserts_flush [OF z(3), of ex_idle ex_cache]
       board_stages_inserts_flush [OF z(2), of "onPayload deals INSERT ex_idle" ex_cache]
  show ?thesis unfolding r1 r2 r3 by (auto simp: e i p set_add_def)
qed

end
